theory Spec2Isabelle
  imports Complex_Main "HOL-Library.Multiset"
begin

section \<open>The polynomial root solver of Numerixx (\<^verbatim>\<open>nxx::poly\<close>, polyroots)\<close>

text \<open>
  The embedding follows the header that defines \<^verbatim>\<open>impl::sortRoots\<close>, \<^verbatim>\<open>linear\<close>,
  \<^verbatim>\<open>quadratic\<close>, \<^verbatim>\<open>cubic\<close>, \<^verbatim>\<open>laguerre\<close> and \<^verbatim>\<open>polysolve\<close>.

  Conventions.
  \<^item> A \<^verbatim>\<open>double\<close> is idealised as a \<^typ>\<open>real\<close> and a \<^verbatim>\<open>std::complex<double>\<close> as a
    \<^typ>\<open>complex\<close>: rounding, infinities and NaN are not modelled. What the ideal numbers
    cannot express is a parameter of the model: the predicate \<open>isfinite\<close> of
    \<^verbatim>\<open>std::isfinite\<close>, and the values drawn from the random generator.
  \<^item> The functions are modelled at the instantiation that \<^verbatim>\<open>polysolve\<close> uses: the polynomial
    has complex coefficients (a real polynomial is converted to one by \<^verbatim>\<open>polysolve\<close>). The
    template parameter \<^verbatim>\<open>RT\<close>, which selects a vector of reals or a vector of complex numbers
    as the result, is an explicit argument.
  \<^item> A failure is a value. The code has two channels, \<^verbatim>\<open>throw NumerixxError(...)\<close> and a
    returned \<^verbatim>\<open>tl::unexpected(NumerixxError(...))\<close>; both are kept apart.
  \<^item> A default argument (\<^verbatim>\<open>tolerance = nxx::EPS\<close>) is passed explicitly by the caller.
\<close>

subsection \<open>Failures\<close>

text \<open>One constructor for each message of the header.\<close>

datatype failure =
    InvalidTolerance real         \<comment> \<open>"Invalid tolerance value: ... Tolerance must be a positive number."\<close>
  | InvalidMaxIterations int      \<comment> \<open>"Invalid maximum number of iterations: ..."\<close>
  | NotLinear                     \<comment> \<open>"Error: Input is not a linear polynomial."\<close>
  | NotQuadratic                  \<comment> \<open>"Error: Input is not a quadratic polynomial."\<close>
  | NotCubic                      \<comment> \<open>"Cubic Error: Polynomial is not cubic."\<close>
  | OrderBelowFour                \<comment> \<open>"Error: Polynomial must be of order 4 or higher."\<close>
  | TooFewCoefficients            \<comment> \<open>"Polynomial must have at least two coefficients (a monomial)."\<close>
  | IllFormed                     \<comment> \<open>"Quadratic polynomial is ill formed."\<close>
  | MaxIterationsReached          \<comment> \<open>"Maximum number of iterations reached."\<close>
  | LinearNoSolution              \<comment> \<open>"Error: Linear equation has no solution."\<close>
  | QuadraticNoSolution           \<comment> \<open>"Error: Quadratic equation has no solution."\<close>
  | CubicNoSolution               \<comment> \<open>"Error: Cubic equation has no solution."\<close>
  | LaguerreFailed                \<comment> \<open>"Error: Laguerre's method failed to converge."\<close>
  | NewtonFailed                  \<comment> \<open>"Error: Newton's method failed to converge."\<close>
  | RootNotFinite                 \<comment> \<open>"Error: Root is not finite."\<close>

datatype error =
    Thrown failure                \<comment> \<open>\<^verbatim>\<open>throw NumerixxError(...)\<close>\<close>
  | Unexpected failure            \<comment> \<open>\<^verbatim>\<open>return tl::unexpected(NumerixxError(...))\<close>\<close>

subsection \<open>The collaborators that are not part of the header\<close>

text \<open>
  Modelled from the spec: the constant \<^verbatim>\<open>nxx::EPS\<close> of \<^verbatim>\<open>Constants.hpp\<close>, the default
  tolerance ("default small positive constant"). The documentation of \<^verbatim>\<open>quadratic\<close> and
  \<^verbatim>\<open>cubic\<close> gives its value as 1e-6.
\<close>

definition EPS :: real where
  "EPS = 1 / 1000000"

text \<open>
  Modelled from the spec: the value type \<^verbatim>\<open>Polynomial\<close> of \<^verbatim>\<open>Polynomial.hpp\<close>: an "ordered
  sequence of coefficients (constant term first, leading coefficient last); order =
  length - 1", with "function-call evaluation at a complex or real argument". A
  \<^verbatim>\<open>Polynomial\<close> holds at least one coefficient.
\<close>

type_synonym polynomial = "complex list"

definition order :: "'a list \<Rightarrow> nat" where
  "order p = length p - 1"

fun poly_eval :: "polynomial \<Rightarrow> complex \<Rightarrow> complex" where
  "poly_eval [] x = 0"
| "poly_eval (c # cs) x = c + x * poly_eval cs x"

text \<open>
  Modelled from the spec: the overload of \<^verbatim>\<open>derivativeOf\<close> for a \<^verbatim>\<open>Polynomial\<close>, which
  "comput[es] the derivative function analytically" (the note at the generic
  \<^verbatim>\<open>derivativeOf\<close>); the overload itself is in \<^verbatim>\<open>Polynomial.hpp\<close>. The derivative of
  \<open>c\<^sub>0 + c\<^sub>1 x + ... + c\<^sub>n x\<^sup>n\<close> has the coefficients \<open>c\<^sub>1, 2 c\<^sub>2, ..., n c\<^sub>n\<close>.
\<close>

fun derivative_from :: "nat \<Rightarrow> polynomial \<Rightarrow> polynomial" where
  "derivative_from k [] = []"
| "derivative_from k (c # cs) = of_nat k * c # derivative_from (Suc k) cs"

definition derivativeOf :: "polynomial \<Rightarrow> polynomial" where
  "derivativeOf p = (if length p \<le> 1 then [0] else derivative_from 1 (tl p))"

text \<open>
  Modelled from the spec: \<^verbatim>\<open>polynomial /= Polynomial { -root, 1.0 }\<close>, the "division by a
  linear factor (deflation, producing a new polynomial of order - 1)" of
  \<^verbatim>\<open>Polynomial.hpp\<close>. The quotient of \<open>c\<^sub>0 + ... + c\<^sub>n x\<^sup>n\<close> by \<open>x - root\<close> has the
  coefficients \<open>s\<^sub>1, ..., s\<^sub>n\<close> with \<open>s\<^sub>n = c\<^sub>n\<close> and \<open>s\<^sub>k = c\<^sub>k + root * s\<^sub>k\<^sub>+\<^sub>1\<close>; the
  remainder \<open>s\<^sub>0\<close> is dropped.
\<close>

fun horner_sums :: "complex \<Rightarrow> polynomial \<Rightarrow> complex list" where
  "horner_sums r [] = []"
| "horner_sums r (c # cs) =
     (c + r * (case horner_sums r cs of [] \<Rightarrow> 0 | s # _ \<Rightarrow> s)) # horner_sums r cs"

definition deflate :: "polynomial \<Rightarrow> complex \<Rightarrow> polynomial" where
  "deflate p r = tl (horner_sums r p)"

text \<open>
  \<^verbatim>\<open>std::sort(first, last, cmp)\<close> belongs to the C++ library, which requires \<^verbatim>\<open>cmp\<close> to be a
  strict weak ordering of the elements and leaves the behaviour undefined otherwise. It is
  modelled by the insertion sort that libstdc++ runs on a range of at most 16 elements:
  each element in turn is moved to the front when it compares less than the first element,
  and is otherwise shifted backwards past the elements it compares less than.
  \<open>linear_insert\<close> works on the sorted prefix in reverse, last element first. On a longer
  range the library partitions the range first and may return another permutation of it,
  so what is proved below about the output of \<^verbatim>\<open>impl::sortRoots\<close> is stated for at most 16
  roots, and what is proved about their order for a comparison that is a strict weak
  ordering of them. Of a longer range nothing is used but that the output is a permutation
  of the input.
\<close>

fun linear_insert :: "('a \<Rightarrow> 'a \<Rightarrow> bool) \<Rightarrow> 'a \<Rightarrow> 'a list \<Rightarrow> 'a list" where
  "linear_insert cmp val [] = [val]"
| "linear_insert cmp val (y # ys) =
     (if cmp val y then y # linear_insert cmp val ys else val # y # ys)"

definition insertion_step :: "('a \<Rightarrow> 'a \<Rightarrow> bool) \<Rightarrow> 'a list \<Rightarrow> 'a \<Rightarrow> 'a list" where
  "insertion_step cmp front val =
     (case front of
        [] \<Rightarrow> [val]
      | first # _ \<Rightarrow>
          if cmp val first then val # front
          else rev (linear_insert cmp val (rev front)))"

definition std_sort :: "('a \<Rightarrow> 'a \<Rightarrow> bool) \<Rightarrow> 'a list \<Rightarrow> 'a list" where
  "std_sort cmp xs = foldl (insertion_step cmp) [] xs"

text \<open>
  \<^verbatim>\<open>std::pow(x, 1.0 / 3.0)\<close> on a complex \<open>x\<close>, the principal cube root: the cube root of
  the modulus, at a third of the argument in \<open>(-\<pi>, \<pi>]\<close>.
\<close>

definition cbrt :: "complex \<Rightarrow> complex" where
  "cbrt x = of_real (root 3 (cmod x)) * cis (Arg x / 3)"

subsection \<open>\<^verbatim>\<open>impl::sortRoots\<close>\<close>

datatype RT = RealRT | ComplexRT

datatype rootvec = RealRoots "real list" | ComplexRoots "complex list"

definition sortingFunc :: "real \<Rightarrow> complex \<Rightarrow> complex \<Rightarrow> bool" where
  "sortingFunc toleranceSqrt root1 root2 =
     (if \<bar>Re root2 - Re root1\<bar> < toleranceSqrt then Im root1 < Im root2
      else Re root1 < Re root2)"

definition sortRoots :: "RT \<Rightarrow> complex list \<Rightarrow> real \<Rightarrow> error + rootvec" where
  "sortRoots rt rs tolerance =
     (if tolerance \<le> 0 then Inl (Thrown (InvalidTolerance tolerance))
      else
        let toleranceSqrt = sqrt tolerance;
            kept = (case rt of
                      RealRT \<Rightarrow> filter (\<lambda>elem. \<not> \<bar>Im elem\<bar> \<ge> toleranceSqrt) rs
                    | ComplexRT \<Rightarrow> rs);
            sorted_roots = std_sort (sortingFunc toleranceSqrt) kept
        in Inr (case rt of
                  ComplexRT \<Rightarrow> ComplexRoots sorted_roots
                | RealRT \<Rightarrow> RealRoots (map Re sorted_roots)))"


subsection \<open>The analytic solvers\<close>

definition linear :: "RT \<Rightarrow> polynomial \<Rightarrow> real \<Rightarrow> error + rootvec" where
  "linear rt poly tolerance =
     (if tolerance \<le> 0 then Inl (Thrown (InvalidTolerance tolerance))
      else if order poly \<noteq> 1 then Inl (Thrown NotLinear)
      else sortRoots rt [- hd poly / last poly] tolerance)"

text \<open>
  The value of the variable \<^verbatim>\<open>q\<close> of \<^verbatim>\<open>quadratic\<close>, and \<^verbatim>\<open>quadratic\<close>, at a polynomial with
  complex coefficients (the instantiation at real coefficients follows the cubic solver).
\<close>

definition quadratic_q :: "complex \<Rightarrow> complex \<Rightarrow> complex \<Rightarrow> complex" where
  "quadratic_q a b c =
     (let discriminant = csqrt (b * b - 4 * a * c);
          sqrt_component = cnj b * discriminant
      in - (1/2) * (b + (if Re sqrt_component \<ge> 0 then discriminant else - discriminant)))"

definition quadratic :: "RT \<Rightarrow> polynomial \<Rightarrow> real \<Rightarrow> error + rootvec" where
  "quadratic rt poly tolerance =
     (if tolerance \<le> 0 then Inl (Thrown (InvalidTolerance tolerance))
      else if order poly \<noteq> 2 then Inl (Thrown NotQuadratic)
      else
        let a = poly ! 2; b = poly ! 1; c = poly ! 0;
            q = quadratic_q a b c
        in if cmod q < tolerance \<or> cmod a < tolerance then Inl (Unexpected IllFormed)
           else sortRoots rt [q / a, c / q] tolerance)"

text \<open>The vector \<^verbatim>\<open>roots\<close> of \<^verbatim>\<open>cubic\<close>, before it is sorted.\<close>

definition cubic_roots :: "polynomial \<Rightarrow> complex list" where
  "cubic_roots poly =
     (let coeff = map (\<lambda>elem. elem / last poly) poly;
          a = coeff ! 2; b = coeff ! 1; c = coeff ! 0;
          Q = (a * a - 3 * b) / 9;
          R = (2 * a * a * a - 9 * a * b + 27 * c) / 54;
          A = - cbrt (R + (if Re (cnj R * csqrt (R * R - Q * Q * Q)) \<ge> 0
                           then csqrt (R * R - Q * Q * Q)
                           else - csqrt (R * R - Q * Q * Q)));
          B = (if cmod A = 0 then 0 else Q / A)
      in [A + B - a / 3,
          - (1/2) * (A + B) - a / 3 + (1/2) * of_real (sqrt 3) * (A - B) * \<i>,
          - (1/2) * (A + B) - a / 3 - (1/2) * of_real (sqrt 3) * (A - B) * \<i>])"

definition cubic :: "RT \<Rightarrow> polynomial \<Rightarrow> real \<Rightarrow> error + rootvec" where
  "cubic rt poly tolerance =
     (if tolerance \<le> 0 then Inl (Thrown (InvalidTolerance tolerance))
      else if order poly \<noteq> 3 then Inl (Thrown NotCubic)
      else sortRoots rt (cubic_roots poly) tolerance)"

subsection \<open>\<^verbatim>\<open>quadratic\<close> on a polynomial with real coefficients\<close>

text \<open>
  The definition \<open>quadratic\<close> above is the instantiation at a \<^verbatim>\<open>Polynomial\<close> of complex
  numbers, where \<^verbatim>\<open>sqrt(b * b - 4.0 * a * c)\<close> is the complex square root. At a
  \<^verbatim>\<open>Polynomial<double>\<close> the coefficients \<^verbatim>\<open>a\<close>, \<^verbatim>\<open>b\<close>, \<^verbatim>\<open>c\<close> are of type \<^verbatim>\<open>double\<close>, so the
  argument of \<^verbatim>\<open>sqrt\<close> is a \<^verbatim>\<open>double\<close> and the call is the real square root, which is not a
  number for a negative argument. To follow such a value through the function, a
  \<^verbatim>\<open>double\<close> is here an ideal real or NaN (infinities and rounding are still left out):
  an arithmetic operation with a NaN operand gives NaN, and a comparison with a NaN
  operand is false.
\<close>

datatype double = Finite real | NaN

fun lift1 :: "(real \<Rightarrow> real) \<Rightarrow> double \<Rightarrow> double" where
  "lift1 f (Finite x) = Finite (f x)"
| "lift1 f NaN = NaN"

fun lift2 :: "(real \<Rightarrow> real \<Rightarrow> real) \<Rightarrow> double \<Rightarrow> double \<Rightarrow> double" where
  "lift2 f (Finite x) (Finite y) = Finite (f x y)"
| "lift2 f _ _ = NaN"

fun less_double :: "double \<Rightarrow> double \<Rightarrow> bool" where
  "less_double (Finite x) (Finite y) = (x < y)"
| "less_double _ _ = False"

fun greater_equal_double :: "double \<Rightarrow> double \<Rightarrow> bool" where
  "greater_equal_double (Finite x) (Finite y) = (x \<ge> y)"
| "greater_equal_double _ _ = False"

text \<open>\<^verbatim>\<open>sqrt\<close> on a \<^verbatim>\<open>double\<close> that is a number.\<close>

definition sqrt_double :: "real \<Rightarrow> double" where
  "sqrt_double x = (if x < 0 then NaN else Finite (sqrt x))"

text \<open>
  A \<^verbatim>\<open>std::complex<double>\<close> is a pair of such values, with the operators of the library
  that \<^verbatim>\<open>quadratic\<close> uses: between two complex numbers, and between a \<^verbatim>\<open>double\<close> and a
  complex number.
\<close>

type_synonym complex_double = "double \<times> double"

fun times_complex :: "complex_double \<Rightarrow> complex_double \<Rightarrow> complex_double" where
  "times_complex (a, b) (c, d) =
     (lift2 (-) (lift2 (*) a c) (lift2 (*) b d), lift2 (+) (lift2 (*) a d) (lift2 (*) b c))"

fun divide_complex :: "complex_double \<Rightarrow> complex_double \<Rightarrow> complex_double" where
  "divide_complex (a, b) (c, d) =
     (lift2 (/) (lift2 (+) (lift2 (*) a c) (lift2 (*) b d))
                (lift2 (+) (lift2 (*) c c) (lift2 (*) d d)),
      lift2 (/) (lift2 (-) (lift2 (*) b c) (lift2 (*) a d))
                (lift2 (+) (lift2 (*) c c) (lift2 (*) d d)))"

fun uminus_complex :: "complex_double \<Rightarrow> complex_double" where
  "uminus_complex (a, b) = (lift1 uminus a, lift1 uminus b)"

fun abs_complex :: "complex_double \<Rightarrow> double" where
  "abs_complex (a, b) = lift1 sqrt (lift2 (+) (lift2 (*) a a) (lift2 (*) b b))"

fun real_plus_complex :: "real \<Rightarrow> complex_double \<Rightarrow> complex_double" where
  "real_plus_complex x (c, d) = (lift2 (+) c (Finite x), d)"

fun real_times_complex :: "real \<Rightarrow> complex_double \<Rightarrow> complex_double" where
  "real_times_complex x (c, d) = (lift2 (*) c (Finite x), lift2 (*) d (Finite x))"

fun complex_divide_real :: "complex_double \<Rightarrow> real \<Rightarrow> complex_double" where
  "complex_divide_real (a, b) y = (lift2 (/) a (Finite y), lift2 (/) b (Finite y))"

definition real_divide_complex :: "real \<Rightarrow> complex_double \<Rightarrow> complex_double" where
  "real_divide_complex x z = divide_complex (Finite x, Finite 0) z"

text \<open>
  \<^verbatim>\<open>impl::sortRoots<double>\<close> and \<^verbatim>\<open>quadratic\<close> once more, on these values. The coefficients of
  the polynomial are numbers; \<^verbatim>\<open>RT\<close> is \<^verbatim>\<open>void\<close>, so the result is a vector of \<^verbatim>\<open>double\<close>.
  \<^verbatim>\<open>std::conj(b)\<close> of the \<^verbatim>\<open>double\<close> \<^verbatim>\<open>b\<close> is the complex number with real part \<^verbatim>\<open>b\<close>.
\<close>

definition sortingFunc_double :: "real \<Rightarrow> complex_double \<Rightarrow> complex_double \<Rightarrow> bool" where
  "sortingFunc_double toleranceSqrt root1 root2 =
     (if less_double (lift1 abs (lift2 (-) (fst root2) (fst root1))) (Finite toleranceSqrt)
      then less_double (snd root1) (snd root2)
      else less_double (fst root1) (fst root2))"

definition sortRoots_double :: "complex_double list \<Rightarrow> real \<Rightarrow> error + double list" where
  "sortRoots_double rs tolerance =
     (if tolerance \<le> 0 then Inl (Thrown (InvalidTolerance tolerance))
      else
        let toleranceSqrt = sqrt tolerance;
            kept = filter (\<lambda>elem. \<not> greater_equal_double (lift1 abs (snd elem))
                                       (Finite toleranceSqrt)) rs;
            sorted_roots = std_sort (sortingFunc_double toleranceSqrt) kept
        in Inr (map fst sorted_roots))"

definition quadratic_double :: "real list \<Rightarrow> real \<Rightarrow> error + double list" where
  "quadratic_double poly tolerance =
     (if tolerance \<le> 0 then Inl (Thrown (InvalidTolerance tolerance))
      else if order poly \<noteq> 2 then Inl (Thrown NotQuadratic)
      else
        let a = poly ! 2; b = poly ! 1; c = poly ! 0;
            discriminant = (sqrt_double (b * b - 4 * a * c), Finite 0);
            sqrt_component = times_complex (Finite b, Finite 0) discriminant;
            q = real_times_complex (- (1/2))
                  (real_plus_complex b
                     (if greater_equal_double (fst sqrt_component) (Finite 0) then discriminant
                      else uminus_complex discriminant))
        in if less_double (abs_complex q) (Finite tolerance) \<or> \<bar>a\<bar> < tolerance
           then Inl (Unexpected IllFormed)
           else sortRoots_double [complex_divide_real q a, real_divide_complex c q] tolerance)"

subsection \<open>\<^verbatim>\<open>laguerre\<close>\<close>

definition laguerrestep :: "complex \<Rightarrow> complex \<Rightarrow> complex option" where
  "laguerrestep g_param h_param =
     (let temp = csqrt (2 * (3 * h_param - g_param * g_param))
      in if cmod (g_param + temp) < EPS then None
         else Some (3 / (if cmod (g_param + temp) > cmod (g_param - temp)
                         then g_param + temp else g_param - temp)))"

text \<open>
  The value of \<^verbatim>\<open>step\<close> after the line \<^verbatim>\<open>if (!step) step = OPT(0.1);\<close>, for the current
  estimate \<open>x\<close> of the root.
\<close>

definition laguerre_step_at :: "polynomial \<Rightarrow> complex \<Rightarrow> complex" where
  "laguerre_step_at poly x =
     (let d1poly = derivativeOf poly;
          d2poly = derivativeOf d1poly;
          G = poly_eval d1poly x / poly_eval poly x;
          H = G * G - poly_eval d2poly x / poly_eval poly x
      in case laguerrestep G H of None \<Rightarrow> 1/10 | Some step \<Rightarrow> step)"

text \<open>
  The loop \<^verbatim>\<open>while (true)\<close>. Its state is the estimate \<open>x\<close> (\<^verbatim>\<open>root\<close>), the counter
  \<open>i\<close> and the number \<open>k\<close> of values drawn so far from the generator; \<open>draw k\<close> is the
  value returned by call number \<open>k\<close> of \<^verbatim>\<open>dist(mt)\<close>. The loop returns its result together with the
  final value of the counter \<open>i\<close>.
\<close>

function laguerre_loop ::
  "(nat \<Rightarrow> real) \<Rightarrow> polynomial \<Rightarrow> real \<Rightarrow> int \<Rightarrow> complex \<Rightarrow> int \<Rightarrow> nat \<Rightarrow> (error + complex) \<times> int"
where
  "laguerre_loop draw poly tolerance max_iterations x i k =
     (if i \<ge> max_iterations then (Inl (Unexpected MaxIterationsReached), i)
      else if cmod (poly_eval poly x) < tolerance then (Inr x, i)
      else
        let step = laguerre_step_at poly x
        in if cmod step < tolerance then (Inr x, i)
           else if i mod 10 = 0
             then laguerre_loop draw poly tolerance max_iterations
                    (x - of_real (draw k)) (i + 1) (Suc k)
             else laguerre_loop draw poly tolerance max_iterations (x - step) (i + 1) k)"
  by pat_completeness auto
termination
  by (relation "measure (\<lambda>(draw, poly, tolerance, max_iterations, x, i, k). nat (max_iterations - i))")
     auto

declare laguerre_loop.simps [simp del]

definition laguerre ::
  "(nat \<Rightarrow> real) \<Rightarrow> polynomial \<Rightarrow> complex \<Rightarrow> real \<Rightarrow> int \<Rightarrow> error + complex"
where
  "laguerre draw poly guess tolerance max_iterations =
     (if tolerance \<le> 0 then Inl (Thrown (InvalidTolerance tolerance))
      else if max_iterations < 1 then Inl (Thrown (InvalidMaxIterations max_iterations))
      else if order poly \<le> 3 then Inl (Thrown OrderBelowFour)
      else if cmod (poly_eval poly guess) < tolerance then Inr guess
      else fst (laguerre_loop draw poly tolerance max_iterations guess 0 0))"

subsection \<open>\<^verbatim>\<open>polysolve\<close>\<close>

text \<open>
  The lambda \<^verbatim>\<open>newt\<close>, which captures \<^verbatim>\<open>tolerance\<close> and \<^verbatim>\<open>max_iterations\<close> by value.
\<close>

function newt_loop :: "real \<Rightarrow> int \<Rightarrow> polynomial \<Rightarrow> complex \<Rightarrow> int \<Rightarrow> complex option" where
  "newt_loop tolerance max_iterations f x i =
     (if i \<ge> max_iterations then None
      else if cmod (poly_eval (derivativeOf f) x) < EPS then None
      else
        let dx = poly_eval f x / poly_eval (derivativeOf f) x;
            x' = x - dx;
            fval = poly_eval f x'
        in if \<bar>Re fval\<bar> < tolerance \<and> \<bar>Im fval\<bar> < tolerance \<and>
              \<bar>Re dx\<bar> < tolerance \<and> \<bar>Im dx\<bar> < tolerance
           then Some x'
           else newt_loop tolerance max_iterations f x' (i + 1))"
  by pat_completeness auto
termination
  by (relation "measure (\<lambda>(tolerance, max_iterations, f, x, i). nat (max_iterations - i))") auto

declare newt_loop.simps [simp del]

definition newt :: "real \<Rightarrow> int \<Rightarrow> polynomial \<Rightarrow> complex \<Rightarrow> complex option" where
  "newt tolerance max_iterations f x = newt_loop tolerance max_iterations f x 0"

text \<open>
  The variables of \<^verbatim>\<open>polysolve\<close> that the deflation loop reads and writes: the working
  polynomial, the copy of the input made beside it, and the roots found so far.
\<close>

record solver_state =
  polynomial :: polynomial
  original :: polynomial
  roots :: "complex list"

text \<open>
  What \<^verbatim>\<open>polysolve\<close> is called with besides the polynomial, and the two parameters of the
  model: \<open>isfinite\<close> stands for \<^verbatim>\<open>std::isfinite\<close>, and \<open>rd n\<close> gives the values drawn
  from the generator that the call of \<^verbatim>\<open>laguerre\<close> for root number \<open>n\<close> creates for itself.
  Every ideal real is finite: the model that corresponds to the code has
  \<open>isfinite = (\<lambda>v. True)\<close>, and the examples take this one. The parameter only keeps the test
  of the polished root a branch of \<open>deflation_pass\<close>; nothing below depends on a predicate
  that differs from \<^verbatim>\<open>std::isfinite\<close>.
\<close>

record solver_config =
  isfinite :: "real \<Rightarrow> bool"
  rd :: "nat \<Rightarrow> nat \<Rightarrow> real"
  tolerance :: real
  max_iterations :: int

text \<open>One pass of the body of \<^verbatim>\<open>while (polynomial.order() > 3)\<close>.\<close>

definition deflation_pass :: "solver_config \<Rightarrow> solver_state \<Rightarrow> error + solver_state" where
  "deflation_pass cfg st =
     (case laguerre (rd cfg (length (roots st))) (polynomial st) 0 (tolerance cfg) (max_iterations cfg) of
        Inl (Thrown e) \<Rightarrow> Inl (Thrown e)
      | Inl (Unexpected e) \<Rightarrow> Inl (Unexpected LaguerreFailed)
      | Inr found \<Rightarrow>
          (case newt (tolerance cfg) (max_iterations cfg) (original st) found of
             None \<Rightarrow> Inl (Unexpected NewtonFailed)
           | Some polished_root \<Rightarrow>
               if \<not> isfinite cfg (Re (poly_eval (original st) polished_root)) \<or>
                  \<not> isfinite cfg (Im (poly_eval (original st) polished_root))
               then Inl (Unexpected RootNotFinite)
               else Inr (st\<lparr>polynomial := deflate (polynomial st) polished_root,
                             roots := roots st @ [polished_root]\<rparr>)))"

function deflation_loop :: "solver_config \<Rightarrow> solver_state \<Rightarrow> error + solver_state" where
  "deflation_loop cfg st =
     (if order (polynomial st) > 3
      then (case deflation_pass cfg st of
              Inl e \<Rightarrow> Inl e
            | Inr st' \<Rightarrow> deflation_loop cfg st')
      else Inr st)"
  by pat_completeness auto
termination
proof (relation "measure (\<lambda>(cfg, st). order (polynomial st))")
  show "wf (measure (\<lambda>(cfg, st). order (polynomial st)))"
    by simp
next
  fix cfg :: solver_config and st st' :: solver_state
  assume big: "3 < order (polynomial st)" and pass: "deflation_pass cfg st = Inr st'"
  have len: "length (horner_sums r p) = length p" for r p
    by (induction p) simp_all
  from pass obtain r where "polynomial st' = deflate (polynomial st) r"
    by (auto simp: deflation_pass_def split: sum.splits error.splits option.splits if_splits)
  then have "order (polynomial st') = order (polynomial st) - 1"
    by (simp add: order_def deflate_def len)
  with big show "((cfg, st'), (cfg, st)) \<in> measure (\<lambda>(cfg, st). order (polynomial st))"
    by simp
qed

declare deflation_loop.simps [simp del]

text \<open>
  The states in which the loop started in \<open>st\<close> evaluates its condition: \<open>st\<close> itself, and
  the state after each pass that succeeds.
\<close>

inductive loop_reaches :: "solver_config \<Rightarrow> solver_state \<Rightarrow> solver_state \<Rightarrow> bool"
  for cfg :: solver_config and st :: solver_state
where
  start: "loop_reaches cfg st st"
| pass: "loop_reaches cfg st s \<Longrightarrow> 3 < order (polynomial s) \<Longrightarrow>
         deflation_pass cfg s = Inr s' \<Longrightarrow> loop_reaches cfg st s'"

text \<open>
  A vector of complex numbers out of the result of an analytic solver that was called with
  \<^verbatim>\<open>RT = COMPLEX_TYPE\<close> (such a call never gives a vector of reals).
\<close>

fun complex_vector :: "rootvec \<Rightarrow> complex list" where
  "complex_vector (ComplexRoots rs) = rs"
| "complex_vector (RealRoots rs) = map of_real rs"

text \<open>
  The call of an analytic solver in a \<^verbatim>\<open>case\<close> of the \<^verbatim>\<open>switch\<close>: an exception passes
  through, a returned failure is replaced by the message of the \<^verbatim>\<open>case\<close>, and the roots are
  appended to \<^verbatim>\<open>roots\<close>.
\<close>

definition append_roots :: "complex list \<Rightarrow> failure \<Rightarrow> error + rootvec \<Rightarrow> error + complex list" where
  "append_roots found no_solution res =
     (case res of
        Inl (Thrown e) \<Rightarrow> Inl (Thrown e)
      | Inl (Unexpected e) \<Rightarrow> Inl (Unexpected no_solution)
      | Inr v \<Rightarrow> Inr (found @ complex_vector v))"

text \<open>
  The \<^verbatim>\<open>switch (poly.order())\<close>: the content of \<^verbatim>\<open>roots\<close> when the final
  \<^verbatim>\<open>impl::sortRoots\<close> is reached. The analytic solvers are called without a tolerance
  argument, that is with \<^verbatim>\<open>nxx::EPS\<close>.
\<close>

definition polysolve_roots :: "solver_config \<Rightarrow> polynomial \<Rightarrow> error + complex list" where
  "polysolve_roots cfg poly =
     (if order poly = 1 then append_roots [] LinearNoSolution (linear ComplexRT poly EPS)
      else if order poly = 2 then append_roots [] QuadraticNoSolution (quadratic ComplexRT poly EPS)
      else if order poly = 3 then append_roots [] CubicNoSolution (cubic ComplexRT poly EPS)
      else
        (case deflation_loop cfg \<lparr>polynomial = poly, original = poly, roots = []\<rparr> of
           Inl e \<Rightarrow> Inl e
         | Inr st \<Rightarrow> append_roots (roots st) CubicNoSolution (cubic ComplexRT (polynomial st) EPS)))"

definition polysolve :: "RT \<Rightarrow> solver_config \<Rightarrow> polynomial \<Rightarrow> error + rootvec" where
  "polysolve rt cfg poly =
     (if tolerance cfg \<le> 0 then Inl (Thrown (InvalidTolerance (tolerance cfg)))
      else if max_iterations cfg < 1 then Inl (Thrown (InvalidMaxIterations (max_iterations cfg)))
      else if order poly < 1 then Inl (Thrown TooFewCoefficients)
      else
        (case polysolve_roots cfg poly of
           Inl e \<Rightarrow> Inl e
         | Inr found \<Rightarrow> sortRoots rt found (tolerance cfg)))"

section \<open>Properties\<close>

subsection \<open>The sort\<close>

text \<open>
  The sort returns a permutation of its input.
\<close>

lemma mset_linear_insert: "mset (linear_insert cmp v ys) = add_mset v (mset ys)"
  by (induction ys) simp_all

lemma mset_insertion_step: "mset (insertion_step cmp front v) = add_mset v (mset front)"
  by (cases front) (simp_all add: insertion_step_def mset_linear_insert)

lemma mset_insertion_fold:
  "mset (foldl (insertion_step cmp) acc xs) = mset acc + mset xs"
  by (induction xs arbitrary: acc) (simp_all add: mset_insertion_step)

lemma mset_std_sort: "mset (std_sort cmp xs) = mset xs"
  by (simp add: std_sort_def mset_insertion_fold)

lemma length_std_sort: "length (std_sort cmp xs) = length xs"
  using mset_std_sort [of cmp xs] by (metis size_mset)










subsection \<open>Deflation\<close>

lemma length_horner_sums: "length (horner_sums r p) = length p"
  by (induction p) simp_all

lemma order_deflate: "order (deflate p r) = order p - 1"
  by (simp add: order_def deflate_def length_horner_sums)

lemma deflation_pass_Inr:
  assumes "deflation_pass cfg st = Inr st'"
  obtains found polished where
    "laguerre (rd cfg (length (roots st))) (polynomial st) 0 (tolerance cfg) (max_iterations cfg) = Inr found"
    "newt (tolerance cfg) (max_iterations cfg) (original st) found = Some polished"
    "isfinite cfg (Re (poly_eval (original st) polished))"
    "isfinite cfg (Im (poly_eval (original st) polished))"
    "st' = st\<lparr>polynomial := deflate (polynomial st) polished, roots := roots st @ [polished]\<rparr>"
  using assms
  by (auto simp: deflation_pass_def split: sum.splits error.splits option.splits if_splits)

lemma deflation_loop_step:
  "3 < order (polynomial st) \<Longrightarrow>
     deflation_loop cfg st = (case deflation_pass cfg st of Inl e \<Rightarrow> Inl e | Inr st' \<Rightarrow> deflation_loop cfg st')"
  by (subst deflation_loop.simps) simp

lemma deflation_loop_stop: "\<not> 3 < order (polynomial st) \<Longrightarrow> deflation_loop cfg st = Inr st"
  by (subst deflation_loop.simps) simp




text \<open>
  An invariant of the passes holds of the state in which the deflation loop stops.
\<close>

lemma deflation_loop_invariant:
  assumes run: "deflation_loop cfg st = Inr fin"
    and init: "I st"
    and step: "\<And>s s'. I s \<Longrightarrow> 3 < order (polynomial s) \<Longrightarrow> deflation_pass cfg s = Inr s' \<Longrightarrow> I s'"
  shows "I fin \<and> \<not> 3 < order (polynomial fin)"
  using run init step
proof (induction cfg st rule: deflation_loop.induct)
  case (1 cfg st)
  show ?case
  proof (cases "3 < order (polynomial st)")
    case False
    with "1.prems" show ?thesis by (simp add: deflation_loop_stop)
  next
    case True
    with "1.prems"(1) obtain st' where pass: "deflation_pass cfg st = Inr st'"
      and rest: "deflation_loop cfg st' = Inr fin"
      by (auto simp: deflation_loop_step split: sum.splits)
    from "1.prems"(3) [OF "1.prems"(2) True pass] have "I st'" .
    from "1.IH" [OF True pass rest this "1.prems"(3)] show ?thesis .
  qed
qed

lemma deflation_loop_count:
  assumes "deflation_loop cfg st = Inr fin" and "3 \<le> order (polynomial st)"
  shows "order (polynomial fin) = 3 \<and>
         length (roots fin) + 3 = length (roots st) + order (polynomial st)"
proof -
  have "(3 \<le> order (polynomial fin) \<and>
         length (roots fin) + order (polynomial fin) = length (roots st) + order (polynomial st))
        \<and> \<not> 3 < order (polynomial fin)"
  proof (rule deflation_loop_invariant [OF assms(1)])
    show "3 \<le> order (polynomial st) \<and>
          length (roots st) + order (polynomial st) = length (roots st) + order (polynomial st)"
      using assms(2) by simp
  next
    fix s s'
    assume inv: "3 \<le> order (polynomial s) \<and>
          length (roots s) + order (polynomial s) = length (roots st) + order (polynomial st)"
      and big: "3 < order (polynomial s)" and pass: "deflation_pass cfg s = Inr s'"
    from pass obtain polished where
      s': "s' = s\<lparr>polynomial := deflate (polynomial s) polished, roots := roots s @ [polished]\<rparr>"
      by (rule deflation_pass_Inr)
    then have "order (polynomial s') = order (polynomial s) - 1"
      and "length (roots s') = length (roots s) + 1"
      by (simp_all add: order_deflate)
    with inv big show "3 \<le> order (polynomial s') \<and>
          length (roots s') + order (polynomial s') = length (roots st) + order (polynomial st)"
      by linarith
  qed
  then show ?thesis by linarith
qed

subsection \<open>What the solvers return\<close>

lemma sortRoots_Complex:
  "0 < tol \<Longrightarrow> sortRoots ComplexRT rs tol = Inr (ComplexRoots (std_sort (sortingFunc (sqrt tol)) rs))"
  by (simp add: sortRoots_def)

lemma sortRoots_Real:
  "0 < tol \<Longrightarrow>
     sortRoots RealRT rs tol =
       Inr (RealRoots (map Re (std_sort (sortingFunc (sqrt tol)) (filter (\<lambda>r. \<bar>Im r\<bar> < sqrt tol) rs))))"
  by (simp add: sortRoots_def Let_def not_le)

lemma length_cubic_roots: "length (cubic_roots p) = 3"
  by (simp add: cubic_roots_def Let_def)

lemma linear_Complex_Inr:
  assumes "linear ComplexRT p tol = Inr v"
  obtains out where "v = ComplexRoots out" "length out = 1"
  using assms
  by (auto simp: linear_def sortRoots_def length_std_sort split: if_splits)

lemma quadratic_Complex_Inr:
  assumes "quadratic ComplexRT p tol = Inr v"
  obtains out where "v = ComplexRoots out" "length out = 2"
  using assms
  by (auto simp: quadratic_def sortRoots_def length_std_sort Let_def split: if_splits)

lemma cubic_Complex_Inr:
  assumes "cubic ComplexRT p tol = Inr v"
  obtains out where "v = ComplexRoots out" "length out = 3"
  using assms
  by (auto simp: cubic_def sortRoots_def length_std_sort length_cubic_roots split: if_splits)

lemma append_roots_Inr:
  assumes "append_roots found f res = Inr out"
  obtains v where "res = Inr v" "out = found @ complex_vector v"
  using assms by (auto simp: append_roots_def split: sum.splits error.splits)

lemma polysolve_Inr:
  assumes "polysolve rt cfg poly = Inr v"
  obtains found where "0 < tolerance cfg" "1 \<le> max_iterations cfg" "1 \<le> order poly"
    "polysolve_roots cfg poly = Inr found" "sortRoots rt found (tolerance cfg) = Inr v"
  using assms by (auto simp: polysolve_def split: if_splits sum.splits)

lemma polysolve_roots_high:
  assumes "4 \<le> order poly" and "polysolve_roots cfg poly = Inr found"
  obtains fin cub where
    "deflation_loop cfg \<lparr>polynomial = poly, original = poly, roots = []\<rparr> = Inr fin"
    "order (polynomial fin) = 3" "length (roots fin) = order poly - 3"
    "cubic ComplexRT (polynomial fin) EPS = Inr (ComplexRoots cub)" "length cub = 3"
    "found = roots fin @ cub"
proof -
  from assms obtain fin where
    loop: "deflation_loop cfg \<lparr>polynomial = poly, original = poly, roots = []\<rparr> = Inr fin"
    and app: "append_roots (roots fin) CubicNoSolution (cubic ComplexRT (polynomial fin) EPS) = Inr found"
    by (auto simp: polysolve_roots_def split: sum.splits)
  from app obtain v where v: "cubic ComplexRT (polynomial fin) EPS = Inr v"
    and found: "found = roots fin @ complex_vector v"
    by (rule append_roots_Inr)
  from v obtain cub where cub: "v = ComplexRoots cub" "length cub = 3"
    by (rule cubic_Complex_Inr)
  from deflation_loop_count [OF loop] assms(1)
  have "order (polynomial fin) = 3" "length (roots fin) = order poly - 3"
    by auto
  with loop v cub found show ?thesis
    by (intro that [of fin cub]) simp_all
qed

lemma polysolve_roots_length:
  assumes "1 \<le> order poly" and "polysolve_roots cfg poly = Inr found"
  shows "length found = order poly"
proof -
  consider "order poly = 1" | "order poly = 2" | "order poly = 3" | "4 \<le> order poly"
    using assms(1) by linarith
  then show ?thesis
  proof cases
    case 1
    with assms(2) have "append_roots [] LinearNoSolution (linear ComplexRT poly EPS) = Inr found"
      by (simp add: polysolve_roots_def)
    then obtain v where "linear ComplexRT poly EPS = Inr v" "found = [] @ complex_vector v"
      by (rule append_roots_Inr)
    moreover from this(1) obtain out where "v = ComplexRoots out" "length out = 1"
      by (rule linear_Complex_Inr)
    ultimately show ?thesis using 1 by simp
  next
    case 2
    with assms(2) have "append_roots [] QuadraticNoSolution (quadratic ComplexRT poly EPS) = Inr found"
      by (simp add: polysolve_roots_def)
    then obtain v where "quadratic ComplexRT poly EPS = Inr v" "found = [] @ complex_vector v"
      by (rule append_roots_Inr)
    moreover from this(1) obtain out where "v = ComplexRoots out" "length out = 2"
      by (rule quadratic_Complex_Inr)
    ultimately show ?thesis using 2 by simp
  next
    case 3
    with assms(2) have "append_roots [] CubicNoSolution (cubic ComplexRT poly EPS) = Inr found"
      by (simp add: polysolve_roots_def)
    then obtain v where "cubic ComplexRT poly EPS = Inr v" "found = [] @ complex_vector v"
      by (rule append_roots_Inr)
    moreover from this(1) obtain out where "v = ComplexRoots out" "length out = 3"
      by (rule cubic_Complex_Inr)
    ultimately show ?thesis using 3 by simp
  next
    case 4
    from 4 assms(2) obtain fin cub where
      "deflation_loop cfg \<lparr>polynomial = poly, original = poly, roots = []\<rparr> = Inr fin"
      "order (polynomial fin) = 3" "length (roots fin) = order poly - 3"
      "cubic ComplexRT (polynomial fin) EPS = Inr (ComplexRoots cub)" "length cub = 3"
      "found = roots fin @ cub"
      by (rule polysolve_roots_high)
    with 4 show ?thesis by simp
  qed
qed

lemma polysolve_roots_low:
  "order poly \<le> 3 \<Longrightarrow>
     polysolve_roots cfg poly =
       (if order poly = 1 then append_roots [] LinearNoSolution (linear ComplexRT poly EPS)
        else if order poly = 2 then append_roots [] QuadraticNoSolution (quadratic ComplexRT poly EPS)
        else if order poly = 3 then append_roots [] CubicNoSolution (cubic ComplexRT poly EPS)
        else Inl (Thrown NotCubic))"
  by (simp add: polysolve_roots_def deflation_loop_stop cubic_def EPS_def append_roots_def)

text \<open>The three roots of \<^verbatim>\<open>cubic\<close> add up to minus the normalised coefficient of \<open>x\<^sup>2\<close>.\<close>

lemma three_roots_sum:
  "sum_list [A + B - a / 3, - (1/2) * (A + B) - a / 3 + X, - (1/2) * (A + B) - a / 3 - X]
     = - (a::complex)"
  by (simp add: algebra_simps)

lemma sum_list_cubic_roots:
  "sum_list (cubic_roots p) = - (map (\<lambda>elem. elem / last p) p ! 2)"
  unfolding cubic_roots_def Let_def by (rule three_roots_sum)

lemma sum_list_std_sort: "sum_list (std_sort cmp xs) = sum_list (xs :: complex list)"
proof -
  have "sum_mset (mset (std_sort cmp xs)) = sum_mset (mset xs)"
    by (simp only: mset_std_sort)
  then show ?thesis
    by (simp only: sum_mset_sum_list)
qed

lemma cubic_sum:
  assumes "cubic ComplexRT p tol = Inr v" and "length p = 4"
  shows "sum_list (complex_vector v) = - (p ! 2 / last p)"
proof -
  from assms(1) have tol: "0 < tol"
    by (simp add: cubic_def split: if_splits)
  with assms have "v = ComplexRoots (std_sort (sortingFunc (sqrt tol)) (cubic_roots p))"
    by (simp add: cubic_def order_def sortRoots_Complex)
  then have "sum_list (complex_vector v) = sum_list (cubic_roots p)"
    by (simp add: sum_list_std_sort)
  also have "\<dots> = - (map (\<lambda>elem. elem / last p) p ! 2)"
    by (rule sum_list_cubic_roots)
  also have "map (\<lambda>elem. elem / last p) p ! 2 = p ! 2 / last p"
    using assms(2) by simp
  finally show ?thesis .
qed

subsection \<open>A worked example: \<open>x\<^sup>4 + x\<close>\<close>

text \<open>
  The estimate 0 of \<^verbatim>\<open>laguerre\<close> is a root of \<open>x\<^sup>4 + x\<close>, the polishing leaves it where it
  is, and the deflation gives \<open>x\<^sup>3 + 1\<close>, whose roots the cubic solver finds.
\<close>

lemma sqrt_EPS: "sqrt EPS = 1 / 1000"
  unfolding EPS_def by (rule real_sqrt_unique) (simp_all add: power2_eq_square)


lemma cbrt_1: "cbrt 1 = 1"
proof -
  have "Arg 1 = 0"
    by (rule cis_Arg_unique) simp_all
  then show ?thesis by (simp add: cbrt_def)
qed

lemma csqrt_quarter: "csqrt (1 / 4) = 1 / 2"
proof -
  have "csqrt (1 / 4) = of_real (sqrt (1 / 4))"
    by (subst csqrt_of_real_nonneg) simp_all
  also have "sqrt (1 / 4) = 1 / 2"
    by (rule real_sqrt_unique) (simp_all add: power2_eq_square)
  finally show ?thesis by simp
qed

lemma cubic_roots_example:
  "cubic_roots [1, 0, 0, 1] = [- 1, Complex (1/2) (- (sqrt 3 / 2)), Complex (1/2) (sqrt 3 / 2)]"
  by (simp add: cubic_roots_def Let_def csqrt_quarter cbrt_1 complex_eq_iff)

lemma sort_cubic_example:
  "0 < ts \<Longrightarrow> ts \<le> 1 \<Longrightarrow> std_sort (sortingFunc ts) [- 1, Complex (1/2) (- (sqrt 3 / 2)), Complex (1/2) (sqrt 3 / 2)]
     = [- 1, Complex (1/2) (- (sqrt 3 / 2)), Complex (1/2) (sqrt 3 / 2)]"
  by (simp add: std_sort_def insertion_step_def sortingFunc_def)

lemma cubic_example:
  "cubic ComplexRT [1, 0, 0, 1] EPS
     = Inr (ComplexRoots [- 1, Complex (1/2) (- (sqrt 3 / 2)), Complex (1/2) (sqrt 3 / 2)])"
  by (simp add: cubic_def order_def sortRoots_def cubic_roots_example sqrt_EPS sort_cubic_example)
     (simp add: EPS_def)


lemma laguerre_example:
  "0 < tol \<Longrightarrow> 1 \<le> maxit \<Longrightarrow> laguerre draw [0, 1, 0, 0, 1] 0 tol maxit = Inr 0"
  by (simp add: laguerre_def order_def)

lemma newt_example:
  "0 < tol \<Longrightarrow> 1 \<le> maxit \<Longrightarrow> newt tol maxit [0, 1, 0, 0, 1] 0 = Some 0"
  unfolding newt_def by (subst newt_loop.simps) (simp add: derivativeOf_def EPS_def)

lemma deflate_example: "deflate [0, 1, 0, 0, 1] 0 = [1, 0, 0, 1]"
  by (simp add: deflate_def)

lemma deflation_pass_example:
  assumes "0 < tolerance cfg" "1 \<le> max_iterations cfg" "isfinite cfg 0"
  shows "deflation_pass cfg \<lparr>polynomial = [0, 1, 0, 0, 1], original = [0, 1, 0, 0, 1], roots = []\<rparr>
           = Inr \<lparr>polynomial = [1, 0, 0, 1], original = [0, 1, 0, 0, 1], roots = [0]\<rparr>"
  using assms by (simp add: deflation_pass_def laguerre_example newt_example deflate_example)

lemma deflation_loop_example:
  assumes "0 < tolerance cfg" "1 \<le> max_iterations cfg" "isfinite cfg 0"
  shows "deflation_loop cfg \<lparr>polynomial = [0, 1, 0, 0, 1], original = [0, 1, 0, 0, 1], roots = []\<rparr>
           = Inr \<lparr>polynomial = [1, 0, 0, 1], original = [0, 1, 0, 0, 1], roots = [0]\<rparr>"
  by (simp add: deflation_loop_step deflation_loop_stop deflation_pass_example [OF assms] order_def)

lemma polysolve_roots_example:
  assumes "0 < tolerance cfg" "1 \<le> max_iterations cfg" "isfinite cfg 0"
  shows "polysolve_roots cfg [0, 1, 0, 0, 1]
           = Inr [0, - 1, Complex (1/2) (- (sqrt 3 / 2)), Complex (1/2) (sqrt 3 / 2)]"
  by (simp add: polysolve_roots_def order_def deflation_loop_example [OF assms] cubic_example
        append_roots_def)

lemma sort_example:
  assumes "0 < ts" "ts \<le> 1 / 2"
  shows "std_sort (sortingFunc ts) [0, - 1, Complex (1/2) (- (sqrt 3 / 2)), Complex (1/2) (sqrt 3 / 2)]
           = [- 1, 0, Complex (1/2) (- (sqrt 3 / 2)), Complex (1/2) (sqrt 3 / 2)]"
  using assms by (simp add: std_sort_def insertion_step_def sortingFunc_def)

lemma polysolve_example:
  assumes "0 < tolerance cfg" "tolerance cfg \<le> 1 / 4" "1 \<le> max_iterations cfg" "isfinite cfg 0"
  shows "polysolve ComplexRT cfg [0, 1, 0, 0, 1]
           = Inr (ComplexRoots [- 1, 0, Complex (1/2) (- (sqrt 3 / 2)), Complex (1/2) (sqrt 3 / 2)])"
proof -
  have "sqrt (tolerance cfg) \<le> sqrt (1 / 4)"
    using assms(2) by (simp only: real_sqrt_le_iff)
  also have "sqrt (1 / 4) = 1 / 2"
    by (rule real_sqrt_unique) (simp_all add: power2_eq_square)
  finally have "sqrt (tolerance cfg) \<le> 1 / 2" .
  moreover have "0 < sqrt (tolerance cfg)"
    using assms(1) by simp
  ultimately show ?thesis
    using assms(1,3)
    by (simp add: polysolve_def order_def polysolve_roots_example [OF assms(1,3,4)] sortRoots_def
          sort_example)
qed

subsection \<open>A second worked example: \<open>x\<^sup>4 - 1\<close>\<close>

text \<open>
  At the estimate 0 the derivatives of \<open>x\<^sup>4 - 1\<close> vanish, so the Laguerre step is the
  fallback 0.1. The counter is 0, so the value drawn from the generator is taken; with the
  draw 1 the next estimate is the root \<open>-1\<close>.
\<close>

lemma laguerre_step_at_example: "laguerre_step_at [- 1, 0, 0, 0, 1] 0 = 1 / 10"
  by (simp add: laguerre_step_at_def derivativeOf_def laguerrestep_def EPS_def)

lemma laguerre_loop_first_example:
  assumes "0 < tol" "tol \<le> 1 / 10" "1 \<le> maxit"
  shows "laguerre_loop draw [- 1, 0, 0, 0, 1] tol maxit 0 0 0
           = laguerre_loop draw [- 1, 0, 0, 0, 1] tol maxit (0 - of_real (draw 0)) 1 1"
  using assms by (subst laguerre_loop.simps) (simp add: laguerre_step_at_example)

lemma laguerre_loop_second_example:
  assumes "0 < tol" "1 < maxit"
  shows "laguerre_loop draw [- 1, 0, 0, 0, 1] tol maxit (- 1) 1 k = (Inr (- 1), 1)"
  using assms by (subst laguerre_loop.simps) simp

lemma laguerre_loop_cut_example:
  "laguerre_loop draw [- 1, 0, 0, 0, 1] tol 1 x 1 k = (Inl (Unexpected MaxIterationsReached), 1)"
  by (subst laguerre_loop.simps) simp

lemma laguerre_loop_example:
  "laguerre_loop (\<lambda>k. 1) [- 1, 0, 0, 0, 1] (1 / 100) 100 0 0 0 = (Inr (- 1), 1)"
  by (simp add: laguerre_loop_first_example laguerre_loop_second_example)

lemma laguerre_quartic_example:
  "laguerre (\<lambda>k. 1) [- 1, 0, 0, 0, 1] 0 (1 / 100) 100 = Inr (- 1)"
  by (simp add: laguerre_def order_def laguerre_loop_example)





subsection \<open>The result of the Laguerre loop\<close>

text \<open>
  An iteration that goes on moves the estimate by the value drawn from the generator when
  the counter is a multiple of 10, and by the Laguerre step otherwise. The loop started
  with the counter at \<open>i\<close> stops with the counter at some \<open>j\<close> from \<open>i\<close> up to the bound, either
  with the failure of the bound or, before the bound, at an estimate whose residual or
  whose step is below the tolerance.
\<close>

lemma laguerre_loop_perturbed:
  assumes "i < maxit" "\<not> cmod (poly_eval p x) < tol" "\<not> cmod (laguerre_step_at p x) < tol"
    and "i mod 10 = 0"
  shows "laguerre_loop draw p tol maxit x i k
           = laguerre_loop draw p tol maxit (x - of_real (draw k)) (i + 1) (Suc k)"
  using assms by (subst laguerre_loop.simps) simp

lemma laguerre_loop_unperturbed:
  assumes "i < maxit" "\<not> cmod (poly_eval p x) < tol" "\<not> cmod (laguerre_step_at p x) < tol"
    and "i mod 10 \<noteq> 0"
  shows "laguerre_loop draw p tol maxit x i k
           = laguerre_loop draw p tol maxit (x - laguerre_step_at p x) (i + 1) k"
  using assms by (subst laguerre_loop.simps) simp

lemma laguerre_loop_result:
  "case laguerre_loop draw p tol maxit x i k of
     (res, j) \<Rightarrow>
       i \<le> j \<and> (j \<le> maxit \<or> j = i) \<and>
       (res = Inl (Unexpected MaxIterationsReached) \<and> maxit \<le> j \<or>
        (\<exists>y. res = Inr y \<and> j < maxit \<and>
             (cmod (poly_eval p y) < tol \<or> cmod (laguerre_step_at p y) < tol)))"
proof (induction draw p tol maxit x i k rule: laguerre_loop.induct)
  case (1 draw p tol maxit x i k)
  show ?case
  proof (cases "maxit \<le> i")
    case True
    then show ?thesis by (subst laguerre_loop.simps) simp
  next
    case running: False
    show ?thesis
    proof (cases "cmod (poly_eval p x) < tol")
      case True
      with running show ?thesis by (subst laguerre_loop.simps) simp
    next
      case residual: False
      show ?thesis
      proof (cases "cmod (laguerre_step_at p x) < tol")
        case True
        with running residual show ?thesis by (subst laguerre_loop.simps) simp
      next
        case step: False
        show ?thesis
        proof (cases "i mod 10 = 0")
          case True
          from "1.IH"(1) [OF running residual refl step True] running residual step True
          show ?thesis
            by (subst laguerre_loop.simps) (auto split: prod.splits)
        next
          case False
          from "1.IH"(2) [OF running residual refl step False] running residual step False
          show ?thesis
            by (subst laguerre_loop.simps) (auto split: prod.splits)
        qed
      qed
    qed
  qed
qed

subsection \<open>The quadratic formula\<close>

text \<open>
  The value \<open>q\<close> of \<^verbatim>\<open>quadratic\<close> satisfies \<open>q\<^sup>2 + b q + a c = 0\<close>, which makes \<open>q / a\<close> and
  \<open>c / q\<close> roots of \<open>a x\<^sup>2 + b x + c\<close>. The example is \<open>x\<^sup>2 + 1\<close>.
\<close>

lemma quadratic_q_sign:
  "quadratic_q a b c =
     - (1/2) * (b + (if 0 \<le> Re (cnj b * csqrt (b * b - 4 * a * c)) then 1 else - 1)
                     * csqrt (b * b - 4 * a * c))"
  by (simp add: quadratic_q_def Let_def)

lemma quadratic_q_equation:
  assumes "s * s = b * b - 4 * a * c" and "q = - (1/2) * (b + s)"
  shows "q * q + b * q + a * c = (0::complex)"
proof -
  have twice: "2 * q = - (b + s)"
    unfolding assms(2) by (simp add: field_simps)
  have "4 * (q * q + b * q + a * c) = (2 * q) * (2 * q) + 2 * b * (2 * q) + 4 * a * c"
    by (simp add: algebra_simps)
  also have "\<dots> = s * s - b * b + 4 * a * c"
    unfolding twice by (simp add: algebra_simps)
  also have "\<dots> = 0"
    by (simp add: assms(1))
  finally have "4 * (q * q + b * q + a * c) = 0" .
  then show ?thesis
    by (metis mult_eq_0_iff zero_neq_numeral)
qed

lemma quadratic_roots_are_roots:
  assumes eq: "q * q + b * q + a * c = (0::complex)" and "a \<noteq> 0" and "q \<noteq> 0"
  shows "poly_eval [c, b, a] (q / a) = 0" and "poly_eval [c, b, a] (c / q) = 0"
proof -
  have "a * poly_eval [c, b, a] (q / a) = q * q + b * q + a * c"
    using \<open>a \<noteq> 0\<close> by (simp add: field_simps)
  with eq \<open>a \<noteq> 0\<close> show "poly_eval [c, b, a] (q / a) = 0"
    by simp
  have "q * q * poly_eval [c, b, a] (c / q) = c * (q * q + b * q + a * c)"
    using \<open>q \<noteq> 0\<close> by (simp add: field_simps)
  with eq \<open>q \<noteq> 0\<close> show "poly_eval [c, b, a] (c / q) = 0"
    by simp
qed

lemma order_two_list:
  assumes "order p = 2"
  shows "p = [p ! 0, p ! 1, p ! 2]"
proof -
  from assms have "length p = 3" by (simp add: order_def)
  then show ?thesis
    by (cases p; cases "tl p"; cases "tl (tl p)") auto
qed


lemma csqrt_minus_four: "csqrt (- 4) = 2 * \<i>"
proof -
  have "csqrt (- 4) = \<i> * of_real (sqrt \<bar>Re (- 4)\<bar>)"
    by (rule csqrt_of_real_nonpos) simp_all
  then show ?thesis by simp
qed

lemma quadratic_example:
  assumes "0 < tol" "tol \<le> 1"
  shows "quadratic ComplexRT [1, 0, 1] tol = Inr (ComplexRoots [- \<i>, \<i>])"
proof -
  have q: "quadratic_q 1 0 1 = - \<i>"
    by (simp add: quadratic_q_def csqrt_minus_four)
  from assms show ?thesis
    by (simp add: quadratic_def order_def q sortRoots_def std_sort_def insertion_step_def
          sortingFunc_def)
qed

text \<open>
  At real coefficients: with a discriminant that is not negative the two instantiations
  agree, as for \<open>x\<^sup>2 - 5 x + 6\<close>; with a negative one the real square root is NaN, and
  unless \<open>|a|\<close> is below the tolerance the result is a vector of two NaN.
\<close>

lemma quadratic_double_example:
  "quadratic_double [6, - 5, 1] EPS = Inr [Finite 2, Finite 3]"
  by (simp add: quadratic_double_def order_def sqrt_double_def EPS_def real_divide_complex_def
        sortRoots_double_def std_sort_def insertion_step_def sortingFunc_double_def)

lemma quadratic_double_negative:
  assumes "0 < tol" "order poly = 2" "poly ! 1 * poly ! 1 - 4 * poly ! 2 * poly ! 0 < 0"
    and "\<not> \<bar>poly ! 2\<bar> < tol"
  shows "quadratic_double poly tol = Inr [NaN, NaN]"
  using assms
  by (simp add: quadratic_double_def sqrt_double_def real_divide_complex_def Let_def
        sortRoots_double_def std_sort_def insertion_step_def sortingFunc_double_def)

subsection \<open>The states of the deflation loop\<close>



subsection \<open>Further examples\<close>

text \<open>
  \<open>x\<^sup>2 + 1\<close> solved through \<^verbatim>\<open>polysolve\<close>, and \<open>x\<^sup>4 + x + 2\<close> under the tolerances 100 and 10.
  Both accept the estimate 0 of \<^verbatim>\<open>laguerre\<close>, where the polynomial has the value 2. Under
  the tolerance 100 the polishing stops at \<open>-2\<close> after one step, under the tolerance 10 at
  \<open>-46/31\<close> after two, and the deflation leaves two different cubic polynomials.
\<close>

lemma polysolve_quadratic_example:
  assumes "0 < tolerance cfg" "1 \<le> max_iterations cfg"
  shows "polysolve_roots cfg [1, 0, 1] = Inr [- \<i>, \<i>]"
    and "polysolve ComplexRT cfg [1, 0, 1] = Inr (ComplexRoots [- \<i>, \<i>])"
    and "tolerance cfg \<le> 1 \<Longrightarrow> polysolve RealRT cfg [1, 0, 1] = Inr (RealRoots [])"
proof -
  have "quadratic ComplexRT [1, 0, 1] EPS = Inr (ComplexRoots [- \<i>, \<i>])"
    by (rule quadratic_example) (simp_all add: EPS_def)
  then show found: "polysolve_roots cfg [1, 0, 1] = Inr [- \<i>, \<i>]"
    by (simp add: polysolve_roots_def order_def append_roots_def)
  from assms show "polysolve ComplexRT cfg [1, 0, 1] = Inr (ComplexRoots [- \<i>, \<i>])"
    by (simp add: polysolve_def order_def found sortRoots_def std_sort_def insertion_step_def
          sortingFunc_def)
  from assms show "polysolve RealRT cfg [1, 0, 1] = Inr (RealRoots [])" if "tolerance cfg \<le> 1"
    using that by (simp add: polysolve_def order_def found sortRoots_def std_sort_def)
qed

lemma laguerre_shifted_example:
  "2 < tol \<Longrightarrow> 1 \<le> maxit \<Longrightarrow> laguerre draw [2, 1, 0, 0, 1] 0 tol maxit = Inr 0"
  by (simp add: laguerre_def order_def)

lemma newt_shifted_100: "newt 100 100 [2, 1, 0, 0, 1] 0 = Some (- 2)"
  unfolding newt_def by (subst newt_loop.simps) (simp add: derivativeOf_def EPS_def)

lemma newt_shifted_10: "newt 10 100 [2, 1, 0, 0, 1] 0 = Some (- (46 / 31))"
proof -
  have second: "newt_loop 10 100 [2, 1, 0, 0, 1] (- 2) 1 = Some (- (46 / 31))"
    by (subst newt_loop.simps) (simp add: derivativeOf_def EPS_def)
  show ?thesis
    unfolding newt_def by (subst newt_loop.simps) (simp add: derivativeOf_def EPS_def second)
qed

lemma deflate_shifted:
  "deflate [2, 1, 0, 0, 1] (- 2) = [- 7, 4, - 2, 1]"
  "deflate [2, 1, 0, 0, 1] (- (46 / 31)) = [- (67545 / 29791), 2116 / 961, - (46 / 31), 1]"
  by (simp_all add: deflate_def)

lemma deflation_loop_shifted_100:
  "deflation_loop \<lparr>isfinite = \<lambda>v. True, rd = \<lambda>n k. 1, tolerance = 100, max_iterations = 100\<rparr>
       \<lparr>polynomial = [2, 1, 0, 0, 1], original = [2, 1, 0, 0, 1], roots = []\<rparr>
     = Inr \<lparr>polynomial = [- 7, 4, - 2, 1], original = [2, 1, 0, 0, 1], roots = [- 2]\<rparr>"
  by (simp add: deflation_loop_step deflation_loop_stop order_def deflation_pass_def
        laguerre_shifted_example newt_shifted_100 deflate_shifted)

lemma deflation_loop_shifted_10:
  "deflation_loop \<lparr>isfinite = \<lambda>v. True, rd = \<lambda>n k. 1, tolerance = 10, max_iterations = 100\<rparr>
       \<lparr>polynomial = [2, 1, 0, 0, 1], original = [2, 1, 0, 0, 1], roots = []\<rparr>
     = Inr \<lparr>polynomial = [- (67545 / 29791), 2116 / 961, - (46 / 31), 1],
            original = [2, 1, 0, 0, 1], roots = [- (46 / 31)]\<rparr>"
  by (simp add: deflation_loop_step deflation_loop_stop order_def deflation_pass_def
        laguerre_shifted_example newt_shifted_10 deflate_shifted)


subsection \<open>Validation of the configuration\<close>

text \<open>
  Claim C5. Whatever the other arguments are, \<^verbatim>\<open>polysolve\<close> and \<^verbatim>\<open>laguerre\<close> called with a
  tolerance \<open>\<le> 0\<close> or with fewer than one iteration allowed end in the exception of their
  own first checks: the invalid tolerance, or else the invalid number of iterations. No
  root set is returned, and no solver stage has run: the failure is not one of a stage.
  \<^verbatim>\<open>polysolve\<close> called on a polynomial of order below 1 ends the same way, with the
  exception for too few coefficients when the tolerance and the iteration bound are valid.
\<close>

theorem configuration_errors:
  "((tolerance cfg \<le> 0 \<or> max_iterations cfg < 1) \<longrightarrow>
      polysolve rt cfg p =
        Inl (Thrown (if tolerance cfg \<le> 0 then InvalidTolerance (tolerance cfg)
                     else InvalidMaxIterations (max_iterations cfg)))) \<and>
   ((tol \<le> 0 \<or> maxit < 1) \<longrightarrow>
      laguerre draw p guess tol maxit =
        Inl (Thrown (if tol \<le> 0 then InvalidTolerance tol else InvalidMaxIterations maxit))) \<and>
   (order p < 1 \<longrightarrow>
      polysolve rt cfg p =
        Inl (Thrown (if tolerance cfg \<le> 0 then InvalidTolerance (tolerance cfg)
                     else if max_iterations cfg < 1 then InvalidMaxIterations (max_iterations cfg)
                     else TooFewCoefficients)))"
  by (simp add: polysolve_def laguerre_def)

theorem configuration_errors_witness:
  "polysolve RealRT \<lparr>isfinite = \<lambda>v. True, rd = \<lambda>n k. 1, tolerance = 0, max_iterations = 100\<rparr> [1, 0, 1]
     = Inl (Thrown (InvalidTolerance 0)) \<and>
   laguerre (\<lambda>k. 1) [- 1, 0, 0, 0, 1] 0 (1/1000) 0 = Inl (Thrown (InvalidMaxIterations 0)) \<and>
   polysolve ComplexRT \<lparr>isfinite = \<lambda>v. True, rd = \<lambda>n k. 1, tolerance = 1/1000, max_iterations = 100\<rparr> [5]
     = Inl (Thrown TooFewCoefficients)"
  using configuration_errors [where cfg = "\<lparr>isfinite = \<lambda>v. True, rd = \<lambda>n k. 1, tolerance = 0, max_iterations = 100\<rparr>"
          and rt = RealRT and p = "[1, 0, 1]" and tol = 1 and maxit = 1]
        configuration_errors [where cfg = "\<lparr>isfinite = \<lambda>v. True, rd = \<lambda>n k. 1, tolerance = 1/1000, max_iterations = 100\<rparr>"
          and rt = ComplexRT and p = "[5]" and tol = 1 and maxit = 1]
        configuration_errors [where p = "[- 1, 0, 0, 0, 1]" and tol = "1/1000" and maxit = 0 and draw = "\<lambda>k. 1" and guess = 0
          and cfg = "\<lparr>isfinite = \<lambda>v. True, rd = \<lambda>n k. 1, tolerance = 1, max_iterations = 1\<rparr>"]
  by (simp add: order_def)

subsection \<open>The deflation loop\<close>




subsection \<open>The number of roots\<close>

text \<open>
  Claim C10. When \<^verbatim>\<open>polysolve\<close> succeeds with complex output requested, the polynomial has
  an order \<open>n \<ge> 1\<close> and the result is a vector of exactly \<open>n\<close> complex roots: a
  permutation of the roots collected before the final sort, none dropped.
\<close>

theorem polysolve_returns_all_roots:
  assumes "polysolve ComplexRT cfg poly = Inr v"
  shows "\<exists>found out. polysolve_roots cfg poly = Inr found \<and> v = ComplexRoots out \<and>
           mset out = mset found \<and> length out = order poly \<and> 1 \<le> order poly"
proof -
  from assms obtain found where tol: "0 < tolerance cfg" and "1 \<le> max_iterations cfg"
    and ord: "1 \<le> order poly"
    and found: "polysolve_roots cfg poly = Inr found"
    and srt: "sortRoots ComplexRT found (tolerance cfg) = Inr v"
    by (rule polysolve_Inr)
  let ?out = "std_sort (sortingFunc (sqrt (tolerance cfg))) found"
  from srt tol have v: "v = ComplexRoots ?out"
    by (simp add: sortRoots_Complex)
  have "mset ?out = mset found"
    by (rule mset_std_sort)
  moreover have "length ?out = order poly"
    using polysolve_roots_length [OF ord found] by (simp add: length_std_sort)
  ultimately show ?thesis
    using found v ord by blast
qed

theorem polysolve_returns_all_roots_witness:
  "polysolve ComplexRT \<lparr>isfinite = \<lambda>v. True, rd = \<lambda>n k. 1, tolerance = 1/100, max_iterations = 100\<rparr>
       [0, 1, 0, 0, 1]
     = Inr (ComplexRoots [- 1, 0, Complex (1/2) (- (sqrt 3 / 2)), Complex (1/2) (sqrt 3 / 2)]) \<and>
   (\<exists>found out.
      polysolve_roots \<lparr>isfinite = \<lambda>v. True, rd = \<lambda>n k. 1, tolerance = 1/100, max_iterations = 100\<rparr>
          [0, 1, 0, 0, 1] = Inr found \<and>
      ComplexRoots [- 1, 0, Complex (1/2) (- (sqrt 3 / 2)), Complex (1/2) (sqrt 3 / 2)] = ComplexRoots out \<and>
      mset out = mset found \<and> length out = 4)"
proof -
  let ?cfg = "\<lparr>isfinite = \<lambda>v. True, rd = \<lambda>n k. 1, tolerance = 1/100, max_iterations = 100\<rparr>"
  have solve: "polysolve ComplexRT ?cfg [0, 1, 0, 0, 1]
      = Inr (ComplexRoots [- 1, 0, Complex (1/2) (- (sqrt 3 / 2)), Complex (1/2) (sqrt 3 / 2)])"
    by (rule polysolve_example) simp_all
  from polysolve_returns_all_roots [OF solve] solve show ?thesis
    by (simp add: order_def)
qed

subsection \<open>Polishing against the original polynomial\<close>



subsection \<open>Termination of \<^verbatim>\<open>laguerre\<close>\<close>

text \<open>
  Claim C6. With a positive tolerance, at least one iteration allowed and a polynomial of
  order 4 or more, \<^verbatim>\<open>laguerre\<close> returns either the failure "maximum number of iterations
  reached" or a root at which the residual or the Laguerre step is below the tolerance.
  The loop stops with its counter between 0 and \<^verbatim>\<open>max_iterations\<close>, so it has updated the
  estimate at most \<^verbatim>\<open>max_iterations\<close> times, and the failure is returned exactly at the bound.
  A polynomial of order 3 or less is rejected by an exception before the loop.
\<close>

theorem laguerre_terminates:
  "(0 < tol \<and> 1 \<le> maxit \<and> 4 \<le> order p \<longrightarrow>
      (laguerre draw p guess tol maxit = Inl (Unexpected MaxIterationsReached) \<or>
       (\<exists>x. laguerre draw p guess tol maxit = Inr x \<and>
            (cmod (poly_eval p x) < tol \<or> cmod (laguerre_step_at p x) < tol))) \<and>
      0 \<le> snd (laguerre_loop draw p tol maxit guess 0 0) \<and>
      snd (laguerre_loop draw p tol maxit guess 0 0) \<le> maxit \<and>
      (fst (laguerre_loop draw p tol maxit guess 0 0) = Inl (Unexpected MaxIterationsReached) \<longrightarrow>
         snd (laguerre_loop draw p tol maxit guess 0 0) = maxit)) \<and>
   (0 < tol \<and> 1 \<le> maxit \<and> order p \<le> 3 \<longrightarrow>
      laguerre draw p guess tol maxit = Inl (Thrown OrderBelowFour))"
proof (intro conjI impI)
  assume a: "0 < tol \<and> 1 \<le> maxit \<and> 4 \<le> order p"
  obtain res j where loop: "laguerre_loop draw p tol maxit guess 0 0 = (res, j)"
    by (cases "laguerre_loop draw p tol maxit guess 0 0")
  from laguerre_loop_result [where draw = draw and p = p and tol = tol and maxit = maxit
         and x = guess and i = 0 and k = 0] loop
  have j: "0 \<le> j" "j \<le> maxit \<or> j = 0"
    and res: "res = Inl (Unexpected MaxIterationsReached) \<and> maxit \<le> j \<or>
        (\<exists>y. res = Inr y \<and> j < maxit \<and>
             (cmod (poly_eval p y) < tol \<or> cmod (laguerre_step_at p y) < tol))"
    by simp_all
  from a res show "laguerre draw p guess tol maxit = Inl (Unexpected MaxIterationsReached) \<or>
       (\<exists>x. laguerre draw p guess tol maxit = Inr x \<and>
            (cmod (poly_eval p x) < tol \<or> cmod (laguerre_step_at p x) < tol))"
    by (auto simp: laguerre_def loop)
  from j show "0 \<le> snd (laguerre_loop draw p tol maxit guess 0 0)"
    by (simp add: loop)
  from a j show "snd (laguerre_loop draw p tol maxit guess 0 0) \<le> maxit"
    by (auto simp: loop)
  from a j res show "snd (laguerre_loop draw p tol maxit guess 0 0) = maxit"
    if "fst (laguerre_loop draw p tol maxit guess 0 0) = Inl (Unexpected MaxIterationsReached)"
    using that by (auto simp: loop)
next
  assume "0 < tol \<and> 1 \<le> maxit \<and> order p \<le> 3"
  then show "laguerre draw p guess tol maxit = Inl (Thrown OrderBelowFour)"
    by (simp add: laguerre_def)
qed

theorem laguerre_terminates_witness:
  "laguerre (\<lambda>k. 1) [- 1, 0, 0, 0, 1] 0 (1 / 100) 100 = Inr (- 1) \<and>
   cmod (poly_eval [- 1, 0, 0, 0, 1] (- 1)) < 1 / 100 \<and>
   snd (laguerre_loop (\<lambda>k. 1) [- 1, 0, 0, 0, 1] (1 / 100) 100 0 0 0) = 1 \<and>
   laguerre (\<lambda>k. 1) [- 1, 0, 0, 0, 1] 0 (1 / 100) 1 = Inl (Unexpected MaxIterationsReached) \<and>
   snd (laguerre_loop (\<lambda>k. 1) [- 1, 0, 0, 0, 1] (1 / 100) 1 0 0 0) = 1 \<and>
   laguerre (\<lambda>k. 1) [1, 0, 1] 0 (1 / 100) 100 = Inl (Thrown OrderBelowFour)"
proof -
  have cut: "laguerre_loop (\<lambda>k. 1) [- 1, 0, 0, 0, 1] (1 / 100) 1 0 0 0
               = (Inl (Unexpected MaxIterationsReached), 1)"
    by (simp add: laguerre_loop_first_example laguerre_loop_cut_example)
  from laguerre_terminates [where tol = "1 / 100" and maxit = 100 and p = "[- 1, 0, 0, 0, 1]"
         and draw = "\<lambda>k. 1" and guess = 0]
       laguerre_terminates [where tol = "1 / 100" and maxit = 1 and p = "[- 1, 0, 0, 0, 1]"
         and draw = "\<lambda>k. 1" and guess = 0]
       laguerre_terminates [where tol = "1 / 100" and maxit = 100 and p = "[1, 0, 1]"
         and draw = "\<lambda>k. 1" and guess = 0]
  show ?thesis
    by (simp add: order_def laguerre_loop_example laguerre_quartic_example cut laguerre_def)
qed

subsection \<open>The perturbation of the Laguerre step\<close>

text \<open>
  Claim C4 says that on every tenth iteration the step is multiplied by the value drawn
  from the generator. The code assigns the drawn value to the step
  (\<^verbatim>\<open>*step = dist(mt)\<close>) instead. For \<open>x\<^sup>4 - 1\<close> and the estimate 0 the step is 0.1 and the
  counter is 0: the next estimate is 0 minus the drawn value, not 0 minus 0.1 times the
  drawn value. With the draw 1 the call returns \<open>-1\<close> after this single iteration. Lemma
  \<open>laguerre_loop_perturbed\<close> has the same for every iteration whose counter is a multiple
  of 10.
\<close>

theorem perturbation_replaces_step:
  "laguerre_step_at [- 1, 0, 0, 0, 1] 0 = 1 / 10 \<and>
   laguerre_loop draw [- 1, 0, 0, 0, 1] (1 / 100) 100 0 0 0
     = laguerre_loop draw [- 1, 0, 0, 0, 1] (1 / 100) 100 (0 - of_real (draw 0)) 1 1 \<and>
   laguerre (\<lambda>k. 1) [- 1, 0, 0, 0, 1] 0 (1 / 100) 100 = Inr (- 1)"
  by (simp add: laguerre_step_at_example laguerre_loop_first_example laguerre_quartic_example)

subsection \<open>The quadratic solver\<close>

text \<open>
  At a polynomial \<open>a x\<^sup>2 + b x + c\<close> of order 2 with complex coefficients, which is what
  \<^verbatim>\<open>polysolve\<close> passes, and a positive tolerance, \<^verbatim>\<open>quadratic\<close> works with
  \<open>q = -1/2 (b + sign \<surd>D)\<close>, where \<open>D = b\<^sup>2 - 4 a c\<close> and the sign makes the real part of
  \<open>conj(b) sign \<surd>D\<close> non-negative. If \<open>|q|\<close> or \<open>|a|\<close> is below the tolerance it returns the
  failure "ill formed". Otherwise it returns what the sorter makes of the two roots \<open>q / a\<close>
  and \<open>c / q\<close> (both of them when complex output is requested), and the two are roots of
  the polynomial.
\<close>

lemma quadratic_complex_coefficients:
  "order p = 2 \<and> 0 < tol \<longrightarrow>
     (let a = p ! 2; b = p ! 1; c = p ! 0;
          D = b * b - 4 * a * c;
          sign = (if 0 \<le> Re (cnj b * csqrt D) then 1 else - 1);
          q = - (1/2) * (b + sign * csqrt D)
      in 0 \<le> Re (cnj b * (sign * csqrt D)) \<and>
         (cmod q < tol \<or> cmod a < tol \<longrightarrow> quadratic rt p tol = Inl (Unexpected IllFormed)) \<and>
         (\<not> (cmod q < tol \<or> cmod a < tol) \<longrightarrow>
            quadratic rt p tol = sortRoots rt [q / a, c / q] tol \<and>
            (\<exists>out. quadratic ComplexRT p tol = Inr (ComplexRoots out) \<and> mset out = {#q / a, c / q#}) \<and>
            poly_eval p (q / a) = 0 \<and> poly_eval p (c / q) = 0))"
proof (intro impI)
  assume hyp: "order p = 2 \<and> 0 < tol"
  define a b c where "a = p ! 2" and "b = p ! 1" and "c = p ! 0"
  define D where "D = b * b - 4 * a * c"
  define sign :: complex where "sign = (if 0 \<le> Re (cnj b * csqrt D) then 1 else - 1)"
  define q where "q = - (1/2) * (b + sign * csqrt D)"
  have p: "p = [c, b, a]"
    using order_two_list [of p] hyp by (simp add: a_def b_def c_def)
  have q_code: "quadratic_q a b c = q"
    by (simp add: quadratic_q_sign q_def sign_def D_def)
  have run: "quadratic rt' p tol =
      (if cmod q < tol \<or> cmod a < tol then Inl (Unexpected IllFormed)
       else sortRoots rt' [q / a, c / q] tol)" for rt'
    using hyp by (simp add: quadratic_def Let_def q_code [symmetric] a_def b_def c_def)
  have aligned: "0 \<le> Re (cnj b * (sign * csqrt D))"
    by (simp add: sign_def)
  have square: "(sign * csqrt D) * (sign * csqrt D) = b * b - 4 * a * c"
  proof -
    have "sign * sign = 1" by (simp add: sign_def)
    then have "(sign * csqrt D) * (sign * csqrt D) = csqrt D * csqrt D"
      by (simp add: mult.assoc mult.left_commute)
    also have "\<dots> = D"
      using power2_csqrt [of D] by (simp add: power2_eq_square)
    finally show ?thesis by (simp add: D_def)
  qed
  have eq: "q * q + b * q + a * c = 0"
    by (rule quadratic_q_equation [OF square]) (simp add: q_def)
  have good: "quadratic rt p tol = sortRoots rt [q / a, c / q] tol \<and>
            (\<exists>out. quadratic ComplexRT p tol = Inr (ComplexRoots out) \<and> mset out = {#q / a, c / q#}) \<and>
            poly_eval p (q / a) = 0 \<and> poly_eval p (c / q) = 0"
    if ok: "\<not> (cmod q < tol \<or> cmod a < tol)"
  proof (intro conjI)
    from ok show "quadratic rt p tol = sortRoots rt [q / a, c / q] tol"
      by (simp add: run)
    from ok hyp have "quadratic ComplexRT p tol
        = Inr (ComplexRoots (std_sort (sortingFunc (sqrt tol)) [q / a, c / q]))"
      by (simp add: run sortRoots_Complex)
    moreover have "mset (std_sort (sortingFunc (sqrt tol)) [q / a, c / q]) = {#q / a, c / q#}"
      by (simp add: mset_std_sort)
    ultimately show "\<exists>out. quadratic ComplexRT p tol = Inr (ComplexRoots out) \<and>
        mset out = {#q / a, c / q#}"
      by blast
    from ok hyp have "a \<noteq> 0" and "q \<noteq> 0"
      by auto
    from quadratic_roots_are_roots [OF eq this]
    show "poly_eval p (q / a) = 0" and "poly_eval p (c / q) = 0"
      by (simp_all add: p [symmetric])
  qed
  have bad: "quadratic rt p tol = Inl (Unexpected IllFormed)" if "cmod q < tol \<or> cmod a < tol"
    using that by (simp add: run)
  from aligned bad good show "let a = p ! 2; b = p ! 1; c = p ! 0;
          D = b * b - 4 * a * c;
          sign = (if 0 \<le> Re (cnj b * csqrt D) then 1 else - 1);
          q = - (1/2) * (b + sign * csqrt D)
      in 0 \<le> Re (cnj b * (sign * csqrt D)) \<and>
         (cmod q < tol \<or> cmod a < tol \<longrightarrow> quadratic rt p tol = Inl (Unexpected IllFormed)) \<and>
         (\<not> (cmod q < tol \<or> cmod a < tol) \<longrightarrow>
            quadratic rt p tol = sortRoots rt [q / a, c / q] tol \<and>
            (\<exists>out. quadratic ComplexRT p tol = Inr (ComplexRoots out) \<and> mset out = {#q / a, c / q#}) \<and>
            poly_eval p (q / a) = 0 \<and> poly_eval p (c / q) = 0)"
    unfolding Let_def a_def [symmetric] b_def [symmetric] c_def [symmetric] D_def [symmetric]
      sign_def [symmetric] q_def [symmetric]
    by blast
qed

text \<open>
  Claim C7 says the same of every polynomial of order 2. It fails at real coefficients. For
  \<open>x\<^sup>2 + 1\<close> given as a \<^verbatim>\<open>Polynomial<double>\<close>, \<^verbatim>\<open>sqrt(b * b - 4.0 * a * c)\<close> is the real square
  root of \<open>-4\<close>, which is NaN. Then \<^verbatim>\<open>q\<close> is NaN, neither \<open>|q|\<close> nor \<open>|a|\<close> compares below the
  tolerance, no failure is reported, and the result is the vector NaN, NaN. The same
  polynomial with complex coefficients gives \<open>-i, i\<close>.
\<close>

theorem quadratic_real_coefficients_nan:
  "quadratic_double [1, 0, 1] EPS = Inr [NaN, NaN] \<and>
   quadratic ComplexRT [1, 0, 1] EPS = Inr (ComplexRoots [- \<i>, \<i>])"
proof -
  have "quadratic_double [1, 0, 1] EPS = Inr [NaN, NaN]"
    by (rule quadratic_double_negative) (simp_all add: order_def EPS_def)
  moreover have "quadratic ComplexRT [1, 0, 1] EPS = Inr (ComplexRoots [- \<i>, \<i>])"
    by (rule quadratic_example) (simp_all add: EPS_def)
  ultimately show ?thesis ..
qed

subsection \<open>The residual of a polished root\<close>

text \<open>
  \<^verbatim>\<open>newt\<close> returns only an estimate at which the real and the imaginary part of the
  polynomial are below the tolerance in magnitude. The test of \<^verbatim>\<open>std::isfinite\<close> that follows
  the polishing is therefore reached only with such values of the original polynomial. A
  value that is not finite does not exist among the ideal numbers of this embedding, so the
  rejection of one is not stated here.
\<close>

lemma newt_residual:
  "newt tol maxit f x = Some y \<Longrightarrow> \<bar>Re (poly_eval f y)\<bar> < tol \<and> \<bar>Im (poly_eval f y)\<bar> < tol"
proof -
  have "newt_loop tol maxit f x i = Some y \<Longrightarrow>
          \<bar>Re (poly_eval f y)\<bar> < tol \<and> \<bar>Im (poly_eval f y)\<bar> < tol" for i
  proof (induction tol maxit f x i rule: newt_loop.induct)
    case (1 tol maxit f x i)
    from "1.prems" show ?case
      by (subst (asm) newt_loop.simps) (auto simp: Let_def split: if_splits dest: "1.IH" [rotated -1])
  qed
  then show "newt tol maxit f x = Some y \<Longrightarrow> \<bar>Re (poly_eval f y)\<bar> < tol \<and> \<bar>Im (poly_eval f y)\<bar> < tol"
    by (simp add: newt_def)
qed

subsection \<open>The tolerance of the analytic solvers\<close>

text \<open>
  Claim C9, as amended. \<^verbatim>\<open>polysolve\<close> calls \<^verbatim>\<open>linear\<close>, \<^verbatim>\<open>quadratic\<close> and \<^verbatim>\<open>cubic\<close> with
  \<^verbatim>\<open>nxx::EPS\<close>, not with its own tolerance. For a polynomial of order up to 3 the roots
  collected before the final sort are therefore the same under any two configurations; with
  two valid configurations \<^verbatim>\<open>polysolve\<close> fails in the same way under both or returns, for
  complex output, the same roots up to their order. For a polynomial of order 4 or more the
  last three roots collected are those of \<^verbatim>\<open>cubic\<close> with \<^verbatim>\<open>nxx::EPS\<close> on the polynomial left by
  the loop, so they depend on the tolerance only through that polynomial: two
  configurations under which the loop leaves the same polynomial give the same three roots.
\<close>

theorem analytic_solvers_ignore_tolerance:
  "(order poly \<le> 3 \<longrightarrow>
      polysolve_roots cfg poly = polysolve_roots cfg' poly \<and>
      polysolve_roots cfg poly =
        (if order poly = 1 then append_roots [] LinearNoSolution (linear ComplexRT poly EPS)
         else if order poly = 2 then append_roots [] QuadraticNoSolution (quadratic ComplexRT poly EPS)
         else if order poly = 3 then append_roots [] CubicNoSolution (cubic ComplexRT poly EPS)
         else Inl (Thrown NotCubic))) \<and>
   (4 \<le> order poly \<and> polysolve_roots cfg poly = Inr found \<longrightarrow>
      (\<exists>fin cub.
          deflation_loop cfg \<lparr>polynomial = poly, original = poly, roots = []\<rparr> = Inr fin \<and>
          cubic ComplexRT (polynomial fin) EPS = Inr (ComplexRoots cub) \<and>
          found = roots fin @ cub)) \<and>
   (4 \<le> order poly \<and>
    deflation_loop cfg \<lparr>polynomial = poly, original = poly, roots = []\<rparr> = Inr fin \<and>
    deflation_loop cfg' \<lparr>polynomial = poly, original = poly, roots = []\<rparr> = Inr fin' \<and>
    polynomial fin = polynomial fin' \<and>
    polysolve_roots cfg poly = Inr found \<and> polysolve_roots cfg' poly = Inr found' \<longrightarrow>
      drop (order poly - 3) found = drop (order poly - 3) found') \<and>
   (0 < tolerance cfg \<and> 0 < tolerance cfg' \<and> 1 \<le> max_iterations cfg \<and> 1 \<le> max_iterations cfg' \<and>
    1 \<le> order poly \<and> order poly \<le> 3 \<longrightarrow>
      (\<forall>e. polysolve rt cfg poly = Inl e \<longleftrightarrow> polysolve rt cfg' poly = Inl e) \<and>
      (\<forall>out out'. polysolve ComplexRT cfg poly = Inr (ComplexRoots out) \<and>
                   polysolve ComplexRT cfg' poly = Inr (ComplexRoots out') \<longrightarrow> mset out = mset out'))"
proof (intro conjI impI)
  assume low: "order poly \<le> 3"
  show "polysolve_roots cfg poly = polysolve_roots cfg' poly"
    by (simp only: polysolve_roots_low [OF low])
  show "polysolve_roots cfg poly =
        (if order poly = 1 then append_roots [] LinearNoSolution (linear ComplexRT poly EPS)
         else if order poly = 2 then append_roots [] QuadraticNoSolution (quadratic ComplexRT poly EPS)
         else if order poly = 3 then append_roots [] CubicNoSolution (cubic ComplexRT poly EPS)
         else Inl (Thrown NotCubic))"
    by (rule polysolve_roots_low [OF low])
next
  assume "4 \<le> order poly \<and> polysolve_roots cfg poly = Inr found"
  then have big: "4 \<le> order poly" and found: "polysolve_roots cfg poly = Inr found"
    by simp_all
  from big found obtain fin cub where
    "deflation_loop cfg \<lparr>polynomial = poly, original = poly, roots = []\<rparr> = Inr fin"
    "order (polynomial fin) = 3" "length (roots fin) = order poly - 3"
    "cubic ComplexRT (polynomial fin) EPS = Inr (ComplexRoots cub)" "length cub = 3"
    "found = roots fin @ cub"
    by (rule polysolve_roots_high)
  then show "\<exists>fin cub.
          deflation_loop cfg \<lparr>polynomial = poly, original = poly, roots = []\<rparr> = Inr fin \<and>
          cubic ComplexRT (polynomial fin) EPS = Inr (ComplexRoots cub) \<and>
          found = roots fin @ cub"
    by blast
next
  assume c: "4 \<le> order poly \<and>
    deflation_loop cfg \<lparr>polynomial = poly, original = poly, roots = []\<rparr> = Inr fin \<and>
    deflation_loop cfg' \<lparr>polynomial = poly, original = poly, roots = []\<rparr> = Inr fin' \<and>
    polynomial fin = polynomial fin' \<and>
    polysolve_roots cfg poly = Inr found \<and> polysolve_roots cfg' poly = Inr found'"
  then have big: "4 \<le> order poly" by simp
  from c big obtain f1 cub where
    "deflation_loop cfg \<lparr>polynomial = poly, original = poly, roots = []\<rparr> = Inr f1"
    "order (polynomial f1) = 3" "length (roots f1) = order poly - 3"
    "cubic ComplexRT (polynomial f1) EPS = Inr (ComplexRoots cub)" "length cub = 3"
    "found = roots f1 @ cub"
    by (auto elim!: polysolve_roots_high [OF big])
  moreover from c big obtain f2 cub' where
    "deflation_loop cfg' \<lparr>polynomial = poly, original = poly, roots = []\<rparr> = Inr f2"
    "order (polynomial f2) = 3" "length (roots f2) = order poly - 3"
    "cubic ComplexRT (polynomial f2) EPS = Inr (ComplexRoots cub')" "length cub' = 3"
    "found' = roots f2 @ cub'"
    by (auto elim!: polysolve_roots_high [OF big])
  ultimately show "drop (order poly - 3) found = drop (order poly - 3) found'"
    using c by simp
next
  assume a: "0 < tolerance cfg \<and> 0 < tolerance cfg' \<and> 1 \<le> max_iterations cfg \<and>
    1 \<le> max_iterations cfg' \<and> 1 \<le> order poly \<and> order poly \<le> 3"
  then have same: "polysolve_roots cfg' poly = polysolve_roots cfg poly"
    by (simp only: polysolve_roots_low)
  have run: "polysolve rt' c poly =
      (case polysolve_roots cfg poly of
         Inl e \<Rightarrow> Inl e
       | Inr found \<Rightarrow> Inr (case rt' of
            ComplexRT \<Rightarrow> ComplexRoots (std_sort (sortingFunc (sqrt (tolerance c))) found)
          | RealRT \<Rightarrow> RealRoots (map Re (std_sort (sortingFunc (sqrt (tolerance c)))
                         (filter (\<lambda>r. \<bar>Im r\<bar> < sqrt (tolerance c)) found)))))"
    if "c = cfg \<or> c = cfg'" for c rt'
    using that a same
    by (cases rt') (auto simp: polysolve_def sortRoots_Complex sortRoots_Real split: sum.splits)
  show "\<forall>e. polysolve rt cfg poly = Inl e \<longleftrightarrow> polysolve rt cfg' poly = Inl e"
    by (simp add: run split: sum.splits)
  show "\<forall>out out'. polysolve ComplexRT cfg poly = Inr (ComplexRoots out) \<and>
                   polysolve ComplexRT cfg' poly = Inr (ComplexRoots out') \<longrightarrow> mset out = mset out'"
    by (auto simp: run mset_std_sort split: sum.splits)
qed

theorem analytic_solvers_ignore_tolerance_witness:
  "polysolve_roots \<lparr>isfinite = \<lambda>v. True, rd = \<lambda>n k. 1, tolerance = 1 / 100, max_iterations = 100\<rparr> [1, 0, 1]
     = polysolve_roots \<lparr>isfinite = \<lambda>v. True, rd = \<lambda>n k. 1, tolerance = 1 / 4, max_iterations = 7\<rparr> [1, 0, 1] \<and>
   polysolve ComplexRT \<lparr>isfinite = \<lambda>v. True, rd = \<lambda>n k. 1, tolerance = 1 / 100, max_iterations = 100\<rparr> [1, 0, 1]
     = Inr (ComplexRoots [- \<i>, \<i>]) \<and>
   polysolve ComplexRT \<lparr>isfinite = \<lambda>v. True, rd = \<lambda>n k. 1, tolerance = 1 / 4, max_iterations = 7\<rparr> [1, 0, 1]
     = Inr (ComplexRoots [- \<i>, \<i>]) \<and>
   polysolve_roots \<lparr>isfinite = \<lambda>v. True, rd = \<lambda>n k. 1, tolerance = 1 / 100, max_iterations = 100\<rparr>
       [0, 1, 0, 0, 1]
     = Inr [0, - 1, Complex (1/2) (- (sqrt 3 / 2)), Complex (1/2) (sqrt 3 / 2)] \<and>
   (\<exists>fin cub.
       deflation_loop \<lparr>isfinite = \<lambda>v. True, rd = \<lambda>n k. 1, tolerance = 1 / 100, max_iterations = 100\<rparr>
           \<lparr>polynomial = [0, 1, 0, 0, 1], original = [0, 1, 0, 0, 1], roots = []\<rparr> = Inr fin \<and>
       cubic ComplexRT (polynomial fin) EPS = Inr (ComplexRoots cub) \<and>
       [0, - 1, Complex (1/2) (- (sqrt 3 / 2)), Complex (1/2) (sqrt 3 / 2)] = roots fin @ cub)"
proof -
  let ?c1 = "\<lparr>isfinite = \<lambda>v. True, rd = \<lambda>n k. 1, tolerance = 1 / 100, max_iterations = 100\<rparr>"
  let ?c2 = "\<lparr>isfinite = \<lambda>v. True, rd = \<lambda>n k. 1, tolerance = 1 / 4, max_iterations = 7\<rparr>"
  let ?found = "[0, - 1, Complex (1/2) (- (sqrt 3 / 2)), Complex (1/2) (sqrt 3 / 2)]"
  let ?init = "\<lparr>polynomial = [0, 1, 0, 0, 1], original = [0, 1, 0, 0, 1], roots = []\<rparr>"
  let ?fin = "\<lparr>polynomial = [1, 0, 0, 1], original = [0, 1, 0, 0, 1], roots = [0]\<rparr>"
  have q1: "polysolve ComplexRT ?c1 [1, 0, 1] = Inr (ComplexRoots [- \<i>, \<i>])"
    and q2: "polysolve ComplexRT ?c2 [1, 0, 1] = Inr (ComplexRoots [- \<i>, \<i>])"
    by (rule polysolve_quadratic_example; simp)+
  have r1: "polysolve_roots ?c1 [0, 1, 0, 0, 1] = Inr ?found"
    and r2: "polysolve_roots ?c2 [0, 1, 0, 0, 1] = Inr ?found"
    by (rule polysolve_roots_example; simp)+
  have l1: "deflation_loop ?c1 ?init = Inr ?fin" and l2: "deflation_loop ?c2 ?init = Inr ?fin"
    by (rule deflation_loop_example; simp)+
  from analytic_solvers_ignore_tolerance [where cfg = ?c1 and cfg' = ?c2 and poly = "[1, 0, 1]"
         and rt = ComplexRT and found = "[- \<i>, \<i>]" and found' = "[- \<i>, \<i>]"
         and fin = ?fin and fin' = ?fin]
       analytic_solvers_ignore_tolerance [where cfg = ?c1 and cfg' = ?c2 and poly = "[0, 1, 0, 0, 1]"
         and rt = ComplexRT and found = ?found and found' = ?found and fin = ?fin and fin' = ?fin]
       q1 q2 r1 r2 l1 l2
  show ?thesis
    by (simp add: order_def)
qed

text \<open>
  Claim C9 as stated, with identical roots of the analytic stages under any two positive
  tolerances, fails for a polynomial of order 4 or more, because the polynomial left by
  the loop depends on the tolerance. For \<open>x\<^sup>4 + x + 2\<close> the cubic solver is given
  \<open>x\<^sup>3 - 2 x\<^sup>2 + 4 x - 7\<close> under the tolerance 100 and another polynomial under the
  tolerance 10, and its results differ: the roots add up to 2 in one and to \<open>46/31\<close> in the
  other.
\<close>

theorem analytic_solvers_ignore_tolerance_counterexample:
  "polysolve_roots \<lparr>isfinite = \<lambda>v. True, rd = \<lambda>n k. 1, tolerance = 100, max_iterations = 100\<rparr>
       [2, 1, 0, 0, 1]
     = append_roots [- 2] CubicNoSolution (cubic ComplexRT [- 7, 4, - 2, 1] EPS) \<and>
   polysolve_roots \<lparr>isfinite = \<lambda>v. True, rd = \<lambda>n k. 1, tolerance = 10, max_iterations = 100\<rparr>
       [2, 1, 0, 0, 1]
     = append_roots [- (46 / 31)] CubicNoSolution
         (cubic ComplexRT [- (67545 / 29791), 2116 / 961, - (46 / 31), 1] EPS) \<and>
   cubic ComplexRT [- 7, 4, - 2, 1] EPS
     \<noteq> cubic ComplexRT [- (67545 / 29791), 2116 / 961, - (46 / 31), 1] EPS"
proof (intro conjI)
  show "polysolve_roots \<lparr>isfinite = \<lambda>v. True, rd = \<lambda>n k. 1, tolerance = 100, max_iterations = 100\<rparr>
       [2, 1, 0, 0, 1]
     = append_roots [- 2] CubicNoSolution (cubic ComplexRT [- 7, 4, - 2, 1] EPS)"
    by (simp add: polysolve_roots_def order_def deflation_loop_shifted_100)
  show "polysolve_roots \<lparr>isfinite = \<lambda>v. True, rd = \<lambda>n k. 1, tolerance = 10, max_iterations = 100\<rparr>
       [2, 1, 0, 0, 1]
     = append_roots [- (46 / 31)] CubicNoSolution
         (cubic ComplexRT [- (67545 / 29791), 2116 / 961, - (46 / 31), 1] EPS)"
    by (simp add: polysolve_roots_def order_def deflation_loop_shifted_10)
  let ?p = "[- 7, 4, - 2, 1] :: polynomial"
  let ?q = "[- (67545 / 29791), 2116 / 961, - (46 / 31), 1] :: polynomial"
  obtain v where v: "cubic ComplexRT ?p EPS = Inr v"
    by (simp add: cubic_def order_def sortRoots_def EPS_def)
  show "cubic ComplexRT ?p EPS \<noteq> cubic ComplexRT ?q EPS"
  proof
    assume "cubic ComplexRT ?p EPS = cubic ComplexRT ?q EPS"
    with v have w: "cubic ComplexRT ?q EPS = Inr v" by simp
    from cubic_sum [OF v] have "sum_list (complex_vector v) = 2" by simp
    moreover from cubic_sum [OF w] have "sum_list (complex_vector v) = 46 / 31" by simp
    ultimately show False by simp
  qed
qed

subsection \<open>The order of the roots\<close>




end
